theory Spec2Isabelle
  imports Complex_Main "HOL-Library.Word"
begin

section \<open>The TensorFlow Lite Jacdac host (tfjacdac.ts)\<close>

text \<open>
  A shallow embedding of \<^verbatim>\<open>src/tfjacdac.ts\<close>. A \<^verbatim>\<open>Buffer\<close> is a list of bytes, a
  TypeScript \<^verbatim>\<open>number\<close> that holds a count or a time is an \<open>int\<close>, the sample multiplier
  (a power of two, exact in a double) is a \<open>rat\<close>. The object state of \<^verbatim>\<open>TFLiteHost\<close>
  is a record that every method takes and returns; what a method sends or schedules is
  returned beside the state as a list of effects. Log output (\<^verbatim>\<open>console.log\<close>,
  \<^verbatim>\<open>control.dmesgValue\<close>) is left out.
\<close>

subsection \<open>Buffers\<close>

type_synonym byte = "8 word"
type_synonym buffer = "byte list"

text \<open>
  \<^verbatim>\<open>Buffer.shift(offset)\<close> of the runtime, called with a non-negative offset and the
  whole buffer: nothing happens on an empty buffer or a zero offset, an offset of the
  buffer's length or more clears the buffer, otherwise the bytes move left and zeros fill
  the freed tail.
\<close>

definition Buffer_shift :: "buffer \<Rightarrow> nat \<Rightarrow> buffer" where
  "Buffer_shift buf offset =
     (if length buf = 0 \<or> offset = 0 then buf
      else if offset \<ge> length buf then replicate (length buf) 0
      else drop offset buf @ replicate offset 0)"

text \<open>
  \<^verbatim>\<open>Buffer.write(dstOffset, src)\<close> of the runtime: a destination offset that is negative or
  beyond the end is refused, and the copy is cut to what fits; the buffer keeps its length.
\<close>

definition Buffer_write :: "buffer \<Rightarrow> int \<Rightarrow> buffer \<Rightarrow> buffer" where
  "Buffer_write buf dstOffset src =
     (if dstOffset < 0 \<or> dstOffset > int (length buf) then buf
      else (let off = nat dstOffset; n = min (length src) (length buf - off)
            in take off buf @ take n src @ drop (off + n) buf))"

text \<open>\<^verbatim>\<open>Buffer.slice(offset, length)\<close>, for an offset that is not negative.\<close>

definition Buffer_slice :: "buffer \<Rightarrow> nat \<Rightarrow> nat \<Rightarrow> buffer" where
  "Buffer_slice buf offset len = take len (drop offset buf)"

datatype NumberFormat = UInt8LE | Int8LE | UInt16LE | Int16LE | UInt32LE | Int32LE

fun sizeOfNumberFormat :: "NumberFormat \<Rightarrow> nat" where
  "sizeOfNumberFormat UInt8LE = 1"
| "sizeOfNumberFormat Int8LE = 1"
| "sizeOfNumberFormat UInt16LE = 2"
| "sizeOfNumberFormat Int16LE = 2"
| "sizeOfNumberFormat UInt32LE = 4"
| "sizeOfNumberFormat Int32LE = 4"

fun isSigned :: "NumberFormat \<Rightarrow> bool" where
  "isSigned Int8LE = True"
| "isSigned Int16LE = True"
| "isSigned Int32LE = True"
| "isSigned _ = False"

fun uintLE :: "buffer \<Rightarrow> int" where
  "uintLE [] = 0"
| "uintLE (b # bs) = uint b + 256 * uintLE bs"

definition sintLE :: "buffer \<Rightarrow> int" where
  "sintLE bs = (let u = uintLE bs; m = 2 ^ (8 * length bs)
                in if 2 * u \<ge> m then u - m else u)"

text \<open>
  \<^verbatim>\<open>Buffer.getNumber(format, offset)\<close>: the little-endian value at the offset, and 0 when the
  buffer is too short for it.
\<close>

definition getNumber :: "buffer \<Rightarrow> NumberFormat \<Rightarrow> nat \<Rightarrow> int" where
  "getNumber buf fmt offset =
     (let sz = sizeOfNumberFormat fmt; bs = take sz (drop offset buf)
      in if length bs < sz then 0
         else if isSigned fmt then sintLE bs else uintLE bs)"

text \<open>\<^verbatim>\<open>Buffer.toArray(format)\<close>: the complete elements of the buffer, in order.\<close>

definition toArray :: "buffer \<Rightarrow> NumberFormat \<Rightarrow> int list" where
  "toArray buf fmt =
     map (\<lambda>i. getNumber buf fmt (i * sizeOfNumberFormat fmt))
         [0 ..< length buf div sizeOfNumberFormat fmt]"

text \<open>
  A float32 is kept as its 32-bit pattern. \<^verbatim>\<open>setNumber(NumberFormat.Float32LE, offset, v)\<close>
  writes the four bytes of the pattern, lowest first, and does nothing when they do not
  fit. The rounding of a number to float32 is the runtime's; the functions that store a
  number take it as the parameter \<open>toF32\<close>.
\<close>

definition le32 :: "32 word \<Rightarrow> buffer" where
  "le32 w = [ucast w, ucast (drop_bit 8 w), ucast (drop_bit 16 w), ucast (drop_bit 24 w)]"

definition setNumberF32 :: "buffer \<Rightarrow> nat \<Rightarrow> 32 word \<Rightarrow> buffer" where
  "setNumberF32 buf offset w =
     (if offset + 4 \<le> length buf
      then take offset buf @ le32 w @ drop (offset + 4) buf
      else buf)"

text \<open>\<^verbatim>\<open>packArray(arr, NumberFormat.Float32LE)\<close>, on the float32 patterns of the elements.\<close>

definition packArrayF32 :: "32 word list \<Rightarrow> buffer" where
  "packArrayF32 arr = concat (map le32 arr)"

subsection \<open>32-bit integer operations of the runtime\<close>

definition toInt32 :: "int \<Rightarrow> int" where
  "toInt32 x = (x + 2 ^ 31) mod 2 ^ 32 - 2 ^ 31"

text \<open>\<^verbatim>\<open>x >> 1\<close>: the operand as a signed 32-bit integer, shifted arithmetically.\<close>

definition shr1 :: "int \<Rightarrow> int" where
  "shr1 x = toInt32 x div 2"

text \<open>
  \<^verbatim>\<open>Math.idiv(x, y)\<close>: signed 32-bit division, rounding towards zero; a zero divisor
  gives 0.
\<close>

definition Math_idiv :: "int \<Rightarrow> int \<Rightarrow> int" where
  "Math_idiv x y =
     (let a = toInt32 x; b = toInt32 y
      in if b = 0 then 0 else toInt32 (sgn a * sgn b * (\<bar>a\<bar> div \<bar>b\<bar>)))"

subsection \<open>Collectors\<close>

text \<open>\<^verbatim>\<open>numberFmt\<close>: the sample type byte of a configuration entry; no case for other values.\<close>

definition numberFmt :: "int \<Rightarrow> NumberFormat option" where
  "numberFmt stype =
     (if stype = 0x8 then Some UInt8LE
      else if stype = 0x88 then Some Int8LE
      else if stype = 0x10 then Some UInt16LE
      else if stype = 0x90 then Some Int16LE
      else if stype = 0x20 then Some UInt32LE
      else if stype = 0xa0 then Some Int32LE
      else None)"

text \<open>
  \<^verbatim>\<open>Buffer.sizeOfNumberFormat\<close> and \<^verbatim>\<open>Buffer.toArray\<close> on what \<^verbatim>\<open>numberFmt\<close> returns.
  Without a format the size is 0 and no element is decoded; a collector of such a type
  has room for no element, so that nothing depends on what would be decoded.
\<close>

definition sizeOfFormat :: "NumberFormat option \<Rightarrow> nat" where
  "sizeOfFormat f = (case f of None \<Rightarrow> 0 | Some fmt \<Rightarrow> sizeOfNumberFormat fmt)"

definition toArrayOf :: "buffer \<Rightarrow> NumberFormat option \<Rightarrow> int list" where
  "toArrayOf buf f = (case f of None \<Rightarrow> [] | Some fmt \<Rightarrow> toArray buf fmt)"

record collector =
  devId :: "buffer option"
  serviceClass :: int
  requiredServiceNum :: int
  sampleType :: int
  sampleMult :: rat
  numElts :: nat
  c_lastSample :: buffer

text \<open>
  The two loops of the constructor that turn \<^verbatim>\<open>sampleShift\<close> into the multiplier:
  the first halves it while the shift is positive, the second doubles it while the shift
  is negative. Each returns the multiplier and the remaining shift.
\<close>

function shiftLoopPos :: "rat \<Rightarrow> int \<Rightarrow> rat \<times> int" where
  "shiftLoopPos m sh = (if sh > 0 then shiftLoopPos (m / 2) (sh - 1) else (m, sh))"
  by pat_completeness auto
termination
  by (relation "measure (\<lambda>(m, sh). nat sh)") auto

function shiftLoopNeg :: "rat \<Rightarrow> int \<Rightarrow> rat \<times> int" where
  "shiftLoopNeg m sh = (if sh < 0 then shiftLoopNeg (m * 2) (sh + 1) else (m, sh))"
  by pat_completeness auto
termination
  by (relation "measure (\<lambda>(m, sh). nat (- sh))") auto

declare shiftLoopPos.simps [simp del] shiftLoopNeg.simps [simp del]

definition sampleMultOf :: "int \<Rightarrow> rat" where
  "sampleMultOf sampleShift =
     (let (m1, sh1) = shiftLoopPos 1 sampleShift;
          (m2, sh2) = shiftLoopNeg m1 sh1
      in m2)"

text \<open>
  The constructor, from the 16 bytes of a configuration entry. It checks nothing: a sample
  type outside the enumeration has no number format, the size of its elements is 0, the
  integer division by it gives 0 elements and the last sample is the empty buffer.
\<close>

definition Collector_new :: "buffer \<Rightarrow> collector" where
  "Collector_new config =
     (let serviceClass = getNumber config UInt32LE 8;
          serviceNum = getNumber config UInt8LE 12;
          sampleSize = getNumber config UInt8LE 13;
          sampleType = getNumber config UInt8LE 14;
          sampleShift = getNumber config Int8LE 15;
          devId = (if getNumber config Int32LE 0 = 0 then None
                   else Some (Buffer_slice config 0 8));
          numElts = nat (Math_idiv sampleSize (int (sizeOfFormat (numberFmt sampleType))))
      in \<lparr> devId = devId, serviceClass = serviceClass,
           requiredServiceNum = serviceNum, sampleType = sampleType,
           sampleMult = sampleMultOf sampleShift, numElts = numElts,
           c_lastSample = replicate (numElts * 4) 0 \<rparr>)"

text \<open>
  The loop of \<^verbatim>\<open>Collector.handlePacket\<close> that stores the decoded elements: element \<open>i\<close>
  times the multiplier goes to byte offset \<open>i << 2\<close> as a float32.
\<close>

fun storeLoop :: "(rat \<Rightarrow> 32 word) \<Rightarrow> rat \<Rightarrow> int list \<Rightarrow> nat \<Rightarrow> buffer \<Rightarrow> buffer" where
  "storeLoop toF32 mult [] i buf = buf"
| "storeLoop toF32 mult (x # xs) i buf =
     storeLoop toF32 mult xs (i + 1) (setNumberF32 buf (i * 4) (toF32 (of_int x * mult)))"

subsection \<open>The host\<close>

datatype TFLiteReg =
  Inputs | AutoInvokeEvery | Outputs | LastRunTime | ModelSize | NumSamples
  | SampleSize | StreamSamples | CurrentSample | LastError

datatype payload = PInt int | PBuf buffer | PStr string | PUndefined

datatype collReg = REG_STREAMING_INTERVAL | REG_IS_STREAMING

datatype task = RunModelTask | ReadModelTask int

text \<open>
  What a method does to the outside: a report sent on the bus, a closure handed to
  \<^verbatim>\<open>control.runInBackground\<close>, a call of the interpreter, a write to the model store, the
  pipe of an upload, and the life cycle of collectors.
\<close>

datatype effect =
  SendReport TFLiteReg payload
  | RunInBackground task
  | InvokeModel buffer
  | BinstoreWrite nat buffer
  | SendPipePort int
  | PipeClose
  | CollectorDestroy collector
  | CollectorSetRegInt collector collReg int

datatype exn = StrExn string | OtherExn

text \<open>
  The fields of \<^verbatim>\<open>TFLiteHost\<close>, then what the host reaches through \<^verbatim>\<open>settings\<close>,
  \<^verbatim>\<open>binstore\<close> and \<^verbatim>\<open>tf\<close>. A numeric field that the class leaves uninitialised is 0
  here (both are falsy and neither is positive), \<^verbatim>\<open>collectors\<close> is the empty list
  before the first configuration, \<^verbatim>\<open>lastError\<close> is \<open>None\<close> for \<^verbatim>\<open>null\<close>.
\<close>

record host =
  autoInvokeSamples :: int
  execTime :: int
  outputs :: buffer
  lastError :: "string option"
  collectors :: "collector list"
  lastSample :: int
  samplingInterval :: int
  samplesInWindow :: int
  sampleSize :: nat
  streamSamples :: int
  samplesBuffer :: buffer
  numSamples :: int
  lastRunNumSamples :: int
  inputSettings :: "buffer option"
  arenaSizeSetting :: "int option"
  binstoreBufs :: "buffer list"
  binstoreTotalSize :: int
  tfModel :: "buffer option"

text \<open>The truth value of a string or \<^verbatim>\<open>null\<close>: the empty string is falsy.\<close>

definition truthy :: "string option \<Rightarrow> bool" where
  "truthy e = (case e of None \<Rightarrow> False | Some str \<Rightarrow> str \<noteq> [])"

definition modelBuffer :: "host \<Rightarrow> buffer option" where
  "modelBuffer s =
     (case binstoreBufs s of
        [] \<Rightarrow> None
      | b # _ \<Rightarrow> if getNumber b Int32LE 0 = - 1 then None else Some b)"

definition modelSize :: "host \<Rightarrow> int" where
  "modelSize s = (case modelBuffer s of Some m \<Rightarrow> int (length m) | None \<Rightarrow> 0)"

definition lastFrame :: "host \<Rightarrow> buffer" where
  "lastFrame s =
     Buffer_slice (samplesBuffer s) (length (samplesBuffer s) - sampleSize s) (sampleSize s)"

definition sendLastSample :: "host \<Rightarrow> effect list" where
  "sendLastSample s = [SendReport CurrentSample (PBuf (lastFrame s))]"

text \<open>The loop of \<^verbatim>\<open>pushData\<close> that writes every collector's last sample.\<close>

fun writeSamples :: "buffer \<Rightarrow> int \<Rightarrow> collector list \<Rightarrow> buffer" where
  "writeSamples buf off [] = buf"
| "writeSamples buf off (coll # colls) =
     writeSamples (Buffer_write buf off (c_lastSample coll))
                  (off + int (length (c_lastSample coll))) colls"

definition pushData :: "host \<Rightarrow> host \<times> effect list" where
  "pushData s =
     (let buf1 = Buffer_shift (samplesBuffer s) (sampleSize s);
          off = int (length buf1) - int (sampleSize s);
          buf2 = writeSamples buf1 off (collectors s);
          s1 = s\<lparr>samplesBuffer := buf2, numSamples := numSamples s + 1\<rparr>
      in if streamSamples s1 > 0
         then (let s2 = s1\<lparr>streamSamples := streamSamples s1 - 1\<rparr>
               in (s2, sendLastSample s2))
         else (s1, []))"

text \<open>\<^verbatim>\<open>while (numSamples-- > 0) this.pushData()\<close>\<close>

fun pushLoop :: "nat \<Rightarrow> host \<Rightarrow> effect list \<Rightarrow> host \<times> effect list" where
  "pushLoop 0 s es = (s, es)"
| "pushLoop (Suc n) s es = (let (s1, es1) = pushData s in pushLoop n s1 (es @ es1))"

text \<open>
  \<^verbatim>\<open>runModel\<close>. The interpreter's answer to \<^verbatim>\<open>tf.invokeModelF([samplesBuffer])\<close> is
  the parameter \<open>invoke\<close>: the float32 patterns of the first output tensor, or the value it
  throws. \<open>t0\<close> and \<open>t1\<close> are the two readings of \<^verbatim>\<open>control.micros()\<close>.
\<close>

definition runModel ::
  "(buffer \<Rightarrow> exn + 32 word list) \<Rightarrow> int \<Rightarrow> int \<Rightarrow> host \<Rightarrow> host \<times> effect list" where
  "runModel invoke t0 t1 s =
     (if truthy (lastError s) then (s, [])
      else
        (let n = numSamples s;
             s1 = (case invoke (samplesBuffer s) of
                     Inr res \<Rightarrow> s\<lparr>outputs := packArrayF32 res\<rparr>
                   | Inl (StrExn e) \<Rightarrow> s\<lparr>lastError := Some e\<rparr>
                   | Inl OtherExn \<Rightarrow> s);
             s2 = s1\<lparr>execTime := t1 - t0, lastRunNumSamples := n\<rparr>
         in (s2, [InvokeModel (samplesBuffer s), SendReport Outputs (PBuf (outputs s2))])))"

text \<open>\<^verbatim>\<open>_newData(timestamp, isPost)\<close>\<close>

definition nFrames :: "int \<Rightarrow> int \<Rightarrow> int" where
  "nFrames d interval = Math_idiv (d + shr1 d) interval"

definition newData :: "int \<Rightarrow> bool \<Rightarrow> host \<Rightarrow> host \<times> effect list" where
  "newData timestamp isPost s0 =
     (let s = (if lastSample s0 = 0 then s0\<lparr>lastSample := timestamp\<rparr> else s0);
          d = timestamp - lastSample s;
          n = nFrames d (samplingInterval s)
      in if n = 0 then (s, [])
         else if isPost then
           (let (s2, es) = pushData (s\<lparr>lastSample := timestamp\<rparr>)
            in if autoInvokeSamples s2 \<noteq> 0 \<and> lastRunNumSamples s2 \<ge> 0 \<and>
                  numSamples s2 - lastRunNumSamples s2 \<ge> autoInvokeSamples s2
               then (s2\<lparr>lastRunNumSamples := - 1\<rparr>, es @ [RunInBackground RunModelTask])
               else (s2, es))
         else
           (let n1 = n - 1; n2 = (if n1 > 5 then 5 else n1)
            in pushLoop (nat n2) s []))"

text \<open>
  \<^verbatim>\<open>Collector.handlePacket\<close>, for the collector at position \<open>idx\<close> of the host's list. The
  command of a register-read report of the reading is \<^verbatim>\<open>CMD_GET_REG | REG_READING\<close>,
  constants of the bus library with no bit in common, so that the union of their bits is
  their sum. A position beyond the list stands for no collector: nothing happens.
\<close>

record jdpacket =
  service_command :: nat
  timestamp :: int
  data :: buffer

definition CMD_GET_REG :: nat where "CMD_GET_REG = 0x1000"
definition REG_READING :: nat where "REG_READING = 0x101"

definition Collector_handlePacket ::
  "(rat \<Rightarrow> 32 word) \<Rightarrow> nat \<Rightarrow> jdpacket \<Rightarrow> host \<Rightarrow> host \<times> effect list" where
  "Collector_handlePacket toF32 idx packet s =
     (if idx < length (collectors s) \<and>
         service_command packet = CMD_GET_REG + REG_READING then
        (let (s1, es1) = newData (timestamp packet) False s;
             c = collectors s1 ! idx;
             arr = toArrayOf (data packet) (numberFmt (sampleType c));
             c1 = c\<lparr>c_lastSample := storeLoop toF32 (sampleMult c) arr 0 (c_lastSample c)\<rparr>;
             s2 = s1\<lparr>collectors := (collectors s1)[idx := c1]\<rparr>;
             (s3, es3) = newData (timestamp packet) True s2
         in (s3, es1 @ es3))
      else (s, []))"

subsection \<open>The model store\<close>

text \<open>
  Modelled from the spec: the block store \<^verbatim>\<open>binstore\<close> (its erase, allocate and write
  primitives are not in \<^verbatim>\<open>tfjacdac.ts\<close>). Erasing leaves no region; allocating adds a
  region of the declared size that reads as erased flash, every byte \<open>0xff\<close>, and returns
  its position; a write puts the bytes at their offset in the region, cut to the region.
\<close>

definition binstore_erase :: "host \<Rightarrow> host" where
  "binstore_erase s = s\<lparr>binstoreBufs := []\<rparr>"

definition binstore_addBuffer :: "host \<Rightarrow> int \<Rightarrow> host \<times> nat" where
  "binstore_addBuffer s sz =
     (s\<lparr>binstoreBufs := binstoreBufs s @ [replicate (nat sz) 0xff]\<rparr>, length (binstoreBufs s))"

definition binstore_write :: "host \<Rightarrow> nat \<Rightarrow> nat \<Rightarrow> buffer \<Rightarrow> host" where
  "binstore_write s flash off buf =
     (if flash < length (binstoreBufs s)
      then s\<lparr>binstoreBufs :=
               (binstoreBufs s)[flash := Buffer_write (binstoreBufs s ! flash) (int off) buf]\<rparr>
      else s)"

text \<open>
  \<^verbatim>\<open>eraseModel\<close>: \<^verbatim>\<open>tf.freeModel()\<close> leaves the interpreter without a model,
  \<^verbatim>\<open>settings.remove\<close> drops the arena size hint.
\<close>

definition eraseModel :: "host \<Rightarrow> host" where
  "eraseModel s = (binstore_erase (s\<lparr>tfModel := None\<rparr>))\<lparr>arenaSizeSetting := None\<rparr>"

text \<open>
  \<^verbatim>\<open>loadModel\<close>. The interpreter's \<^verbatim>\<open>tf.loadModel(model, sizeHint)\<close> is the parameter
  \<open>tfLoad\<close>: the arena bytes after a load that succeeds, or the value it throws (after
  which the interpreter holds no model).
\<close>

definition loadModel :: "(buffer \<Rightarrow> int option \<Rightarrow> exn + int) \<Rightarrow> host \<Rightarrow> host" where
  "loadModel tfLoad s0 =
     (let s = s0\<lparr>lastError := None\<rparr>
      in case modelBuffer s of
           None \<Rightarrow> s\<lparr>lastError := Some ''no model''\<rparr>
         | Some m \<Rightarrow>
             (let sizeHint = arenaSizeSetting s
              in case tfLoad m sizeHint of
                   Inr arena \<Rightarrow>
                     (let s1 = s\<lparr>tfModel := Some m\<rparr>
                      in if sizeHint = None then s1\<lparr>arenaSizeSetting := Some (arena + 32)\<rparr>
                         else s1)
                 | Inl (StrExn e) \<Rightarrow> s\<lparr>tfModel := None, lastError := Some e\<rparr>
                 | Inl OtherExn \<Rightarrow> s\<lparr>tfModel := None\<rparr>))"

subsection \<open>Configuration\<close>

text \<open>
  The loop of \<^verbatim>\<open>configureInputs\<close> over the 16-byte entries, with its two accumulators:
  the collectors made so far and the frame size.
\<close>

function configLoop ::
  "buffer \<Rightarrow> nat \<Rightarrow> collector list \<Rightarrow> nat \<Rightarrow> collector list \<times> nat" where
  "configLoop config off colls frameSz =
     (if off < length config then
        (let coll = Collector_new (Buffer_slice config off 16)
         in configLoop config (off + 16) (colls @ [coll])
              (frameSz + length (c_lastSample coll)))
      else (colls, frameSz))"
  by pat_completeness auto
termination
  by (relation "measure (\<lambda>(config, off, colls, frameSz). length config - off)") auto

declare configLoop.simps [simp del]

definition setRegs :: "int \<Rightarrow> collector \<Rightarrow> effect list" where
  "setRegs interval coll =
     [CollectorSetRegInt coll REG_STREAMING_INTERVAL interval,
      CollectorSetRegInt coll REG_IS_STREAMING 255]"

definition configureInputs :: "host \<Rightarrow> host \<times> effect list" where
  "configureInputs s =
     (case inputSettings s of
        None \<Rightarrow> (s, [])
      | Some config \<Rightarrow>
          (let interval = getNumber config UInt16LE 0;
               window = getNumber config UInt16LE 2;
               (colls, frameSz) = configLoop config 8 [] 0
           in (s\<lparr>samplingInterval := interval, samplesInWindow := window,
                 collectors := colls, sampleSize := frameSz,
                 samplesBuffer := replicate (nat window * frameSz) 0,
                 numSamples := 0, lastRunNumSamples := 0\<rparr>,
               map CollectorDestroy (collectors s) @
               concat (map (setRegs interval) colls))))"

subsection \<open>Model upload\<close>

datatype outcome = Rejected | StreamClosed | Thrown string | Completed

text \<open>
  The loop of \<^verbatim>\<open>readModel\<close>. The chunks are what \<^verbatim>\<open>pipe.read()\<close> returns, in order, until
  the pipe closes; \<open>off\<close> is the number of bytes received, \<open>headBuffer\<close> the staged header.
  \<^verbatim>\<open>off & 7\<close> is the remainder of \<open>off\<close> by 8.
\<close>

fun readLoop ::
  "int \<Rightarrow> nat \<Rightarrow> buffer list \<Rightarrow> nat \<Rightarrow> buffer \<Rightarrow> host \<Rightarrow> effect list
   \<Rightarrow> outcome \<times> host \<times> effect list" where
  "readLoop sz flash [] off headBuffer s es = (StreamClosed, s, es)"
| "readLoop sz flash (buf # rest) off headBuffer s es =
     (let (headBuffer1, s1, es1) =
            (if off = 0
             then (Buffer_write headBuffer 0 buf,
                   binstore_write s flash 8 (drop 8 buf),
                   es @ [BinstoreWrite 8 (drop 8 buf)])
             else (headBuffer, binstore_write s flash off buf, es @ [BinstoreWrite off buf]));
          off1 = off + length buf
      in if int off1 \<ge> sz
         then (Completed, binstore_write s1 flash 0 headBuffer1,
               es1 @ [BinstoreWrite 0 headBuffer1])
         else if off1 mod 8 \<noteq> 0 then (Thrown ''invalid model stream size'', s1, es1)
         else readLoop sz flash rest off1 headBuffer1 s1 es1)"

text \<open>
  \<^verbatim>\<open>readModel\<close>, for declared size \<open>sz\<close> (\<^verbatim>\<open>packet.intData\<close>), the port of the pipe it
  opens, and the chunks that arrive.
\<close>

definition readModel ::
  "(buffer \<Rightarrow> int option \<Rightarrow> exn + int) \<Rightarrow> int \<Rightarrow> int \<Rightarrow> buffer list \<Rightarrow> host
   \<Rightarrow> outcome \<times> host \<times> effect list" where
  "readModel tfLoad port sz chunks s =
     (if sz > binstoreTotalSize s - 8 then (Rejected, s, [])
      else
        (let s1 = eraseModel s;
             (s2, flash) = binstore_addBuffer s1 sz
         in case readLoop sz flash chunks 0 (replicate 8 0) s2 [SendPipePort port] of
              (Completed, s3, es) \<Rightarrow> (Completed, loadModel tfLoad s3, es @ [PipeClose])
            | r \<Rightarrow> r))"

subsection \<open>The register dispatcher\<close>

text \<open>
  The packets of \<^verbatim>\<open>TFLiteHost.handlePacket\<close>, decoded: the command \<^verbatim>\<open>SetModel\<close>, a read of
  a register, a write of the configuration register, a write of an integer register. The
  three registers that the interpreter answers (arena size and the two tensor shapes) are
  left out. \<^verbatim>\<open>handleRegInt\<close> and \<^verbatim>\<open>handleRegBuffer\<close> of the bus library answer a read with
  the current value and return the written value on a write.
\<close>

datatype hostPacket =
  CmdSetModel int
  | RegGet TFLiteReg
  | RegSetInputs buffer
  | RegSetInt TFLiteReg int

definition handleRegInt :: "hostPacket \<Rightarrow> TFLiteReg \<Rightarrow> int \<Rightarrow> int \<times> effect list" where
  "handleRegInt packet reg current =
     (case packet of
        RegGet r \<Rightarrow> (current, if r = reg then [SendReport reg (PInt current)] else [])
      | RegSetInt r v \<Rightarrow> (if r = reg then v else current, [])
      | _ \<Rightarrow> (current, []))"

definition handleRegBuffer :: "hostPacket \<Rightarrow> TFLiteReg \<Rightarrow> buffer \<Rightarrow> effect list" where
  "handleRegBuffer packet reg current =
     (case packet of
        RegGet r \<Rightarrow> (if r = reg then [SendReport reg (PBuf current)] else [])
      | _ \<Rightarrow> [])"

definition handlePacket :: "hostPacket \<Rightarrow> host \<Rightarrow> host \<times> effect list" where
  "handlePacket packet s =
     (let es1 = snd (handleRegInt packet LastRunTime (execTime s));
          es2 = snd (handleRegInt packet ModelSize (modelSize s));
          es3 = snd (handleRegInt packet NumSamples (numSamples s));
          es4 = snd (handleRegInt packet SampleSize (int (sampleSize s)));
          es5 = handleRegBuffer packet Outputs (outputs s);
          (v6, es6) = handleRegInt packet StreamSamples (streamSamples s);
          s6 = s\<lparr>streamSamples := v6\<rparr>;
          (v7, es7) = handleRegInt packet AutoInvokeEvery (autoInvokeSamples s6);
          s7 = s6\<lparr>autoInvokeSamples := v7\<rparr>;
          es = es1 @ es2 @ es3 @ es4 @ es5 @ es6 @ es7
      in case packet of
           CmdSetModel sz \<Rightarrow> (s7, es @ [RunInBackground (ReadModelTask sz)])
         | RegGet Inputs \<Rightarrow>
             (s7, es @ [SendReport Inputs
                          (case inputSettings s7 of None \<Rightarrow> PUndefined | Some b \<Rightarrow> PBuf b)])
         | RegSetInputs d \<Rightarrow>
             (if inputSettings s7 = Some d then (s7, es)
              else (let (s8, es8) = configureInputs (s7\<lparr>inputSettings := Some d\<rparr>)
                    in (s8, es @ es8)))
         | RegGet CurrentSample \<Rightarrow> (s7, es @ sendLastSample s7)
         | RegGet LastError \<Rightarrow>
             (s7, es @ [SendReport LastError
                          (PStr (case lastError s7 of None \<Rightarrow> [] | Some e \<Rightarrow> e))])
         | _ \<Rightarrow> (s7, es))"

subsection \<open>Reference notions and sample states\<close>

text \<open>
  The state of a host after its constructor, beside a model store of the given total
  size with no region and empty settings.
\<close>

definition initHost :: "int \<Rightarrow> host" where
  "initHost totalSize =
     \<lparr> autoInvokeSamples = 0, execTime = 0, outputs = [], lastError = None,
       collectors = [], lastSample = 0, samplingInterval = 0, samplesInWindow = 0,
       sampleSize = 0, streamSamples = 0, samplesBuffer = [], numSamples = 0,
       lastRunNumSamples = 0, inputSettings = None, arenaSizeSetting = None,
       binstoreBufs = [], binstoreTotalSize = totalSize, tfModel = None \<rparr>"

text \<open>
  Rounding of the quotient to the nearest integer, halves up, as the specification words
  the frame count of the timing reconciler.
\<close>

definition roundHalfUp :: "int \<Rightarrow> int \<Rightarrow> int" where
  "roundHalfUp d i = \<lfloor>(of_int d / of_int i :: rat) + 1 / 2\<rfloor>"

text \<open>
  A configuration entry: wildcard device, service class \<open>0x13fe118c\<close>, service index 0,
  4 bytes per sample, type \<^verbatim>\<open>I16\<close>, scale exponent 1.
\<close>

definition exEntry :: buffer where
  "exEntry = [0, 0, 0, 0, 0, 0, 0, 0, 0x8c, 0x11, 0xfe, 0x13, 0, 4, 0x90, 1]"

text \<open>
  The layout of a configuration blob: after the 8-byte head, 16-byte entries; in an entry,
  byte 13 is the declared sample size and byte 14 the sample type. The entries of any
  blob are its slices of 16 bytes from the offset on, the last one shorter when the
  length does not fit; a valid blob has whole entries with sample types of the
  enumeration.
\<close>

definition entriesFrom :: "buffer \<Rightarrow> nat \<Rightarrow> buffer list" where
  "entriesFrom config off =
     map (\<lambda>k. Buffer_slice config (off + 16 * k) 16)
         [0 ..< (length config - off + 15) div 16]"

definition entrySampleSize :: "buffer \<Rightarrow> nat" where
  "entrySampleSize entry = nat (getNumber entry UInt8LE 13)"

definition entryFormat :: "buffer \<Rightarrow> NumberFormat option" where
  "entryFormat entry = numberFmt (getNumber entry UInt8LE 14)"

definition valid_config :: "buffer \<Rightarrow> bool" where
  "valid_config config =
     (8 \<le> length config \<and> (length config - 8) mod 16 = 0 \<and>
      list_all (\<lambda>entry. entryFormat entry \<noteq> None) (entriesFrom config 8))"

text \<open>The frame size as the specification words it: the sum of the declared sample sizes.\<close>

definition declaredFrameSize :: "buffer \<Rightarrow> nat" where
  "declaredFrameSize config = sum_list (map entrySampleSize (entriesFrom config 8))"

text \<open>
  The bytes of the float32 vector of an entry: four for every whole element of the
  declared sample size, and none when the sample type has no format.
\<close>

definition entryFloatBytes :: "buffer \<Rightarrow> nat" where
  "entryFloatBytes entry =
     4 * (entrySampleSize entry div sizeOfFormat (entryFormat entry))"

definition floatFrameSize :: "buffer \<Rightarrow> nat" where
  "floatFrameSize config = sum_list (map entryFloatBytes (entriesFrom config 8))"

text \<open>
  The window buffer of a host holds the frames \<open>fs\<close>, oldest first: it is their
  concatenation, there are \<^verbatim>\<open>samplesInWindow\<close> of them, each of the frame size, and the
  frame size is the total size of the collectors' last samples.
\<close>

definition currentFrame :: "host \<Rightarrow> buffer" where
  "currentFrame s = concat (map c_lastSample (collectors s))"

definition holdsFrames :: "host \<Rightarrow> buffer list \<Rightarrow> bool" where
  "holdsFrames s fs =
     (samplesBuffer s = concat fs \<and> length fs = nat (samplesInWindow s) \<and>
      list_all (\<lambda>f. length f = sampleSize s) fs \<and>
      sampleSize s = length (currentFrame s))"

text \<open>
  A configuration blob: interval 100 ms, window of 2 frames, and the one entry \<open>exEntry\<close>.
\<close>

definition exConfig :: buffer where
  "exConfig = [100, 0, 2, 0, 0, 0, 0, 0] @ exEntry"

text \<open>
  A host with a window of two 8-byte frames, holding a frame of ones and a frame of twos,
  whose one collector has a last sample of threes.
\<close>

definition exPushed :: host where
  "exPushed =
     (initHost 0)\<lparr>samplesInWindow := 2, sampleSize := 8,
       samplesBuffer := [1, 1, 1, 1, 1, 1, 1, 1, 2, 2, 2, 2, 2, 2, 2, 2],
       collectors := [(Collector_new exEntry)\<lparr>c_lastSample := [3, 3, 3, 3, 3, 3, 3, 3]\<rparr>]\<rparr>"

subsection \<open>Start-up and the schedule of events\<close>

text \<open>\<^verbatim>\<open>start\<close>: the model is loaded, then the inputs are configured.\<close>

definition start ::
  "(buffer \<Rightarrow> int option \<Rightarrow> exn + int) \<Rightarrow> host \<Rightarrow> host \<times> effect list" where
  "start tfLoad s = configureInputs (loadModel tfLoad s)"

text \<open>
  The host in its environment: beside the host, the queue of closures handed to
  \<^verbatim>\<open>control.runInBackground\<close> that have not run yet, oldest first, and everything done
  to the outside so far. An event is the start of the service, a packet for the collector
  at a position, a packet for the host, or the scheduler running the oldest closure of the
  queue to its end. The event carries what the environment answers during it: the result
  of the interpreter and the two clock readings for a model run; the interpreter's load,
  the pipe's port and the chunks that arrive for an upload.
  An upload waits for its chunks while other events happen; here it runs as one event.
  Before it completes it changes only the store, the interpreter's model and the arena
  hint; the last error, the counters and the start mark are out of its reach until then.
\<close>

record sys =
  hostOf :: host
  queue :: "task list"
  trace :: "effect list"

record answers =
  invokeOf :: "buffer \<Rightarrow> exn + 32 word list"
  t0Of :: int
  t1Of :: int
  tfLoadOf :: "buffer \<Rightarrow> int option \<Rightarrow> exn + int"
  portOf :: int
  chunksOf :: "buffer list"

datatype event =
  Start "buffer \<Rightarrow> int option \<Rightarrow> exn + int"
  | Report nat jdpacket
  | Packet hostPacket
  | Background answers

fun tasksOf :: "effect list \<Rightarrow> task list" where
  "tasksOf [] = []"
| "tasksOf (RunInBackground t # es) = t # tasksOf es"
| "tasksOf (_ # es) = tasksOf es"

definition after :: "sys \<Rightarrow> task list \<Rightarrow> host \<times> effect list \<Rightarrow> sys" where
  "after \<sigma> q r =
     \<lparr> hostOf = fst r, queue = q @ tasksOf (snd r), trace = trace \<sigma> @ snd r \<rparr>"

definition runTask :: "answers \<Rightarrow> task \<Rightarrow> host \<Rightarrow> host \<times> effect list" where
  "runTask a t s =
     (case t of
        RunModelTask \<Rightarrow> runModel (invokeOf a) (t0Of a) (t1Of a) s
      | ReadModelTask sz \<Rightarrow> snd (readModel (tfLoadOf a) (portOf a) sz (chunksOf a) s))"

definition sysStep :: "(rat \<Rightarrow> 32 word) \<Rightarrow> sys \<Rightarrow> event \<Rightarrow> sys" where
  "sysStep toF32 \<sigma> ev =
     (case ev of
        Start tfLoad \<Rightarrow> after \<sigma> (queue \<sigma>) (start tfLoad (hostOf \<sigma>))
      | Report idx packet \<Rightarrow>
          after \<sigma> (queue \<sigma>) (Collector_handlePacket toF32 idx packet (hostOf \<sigma>))
      | Packet packet \<Rightarrow> after \<sigma> (queue \<sigma>) (handlePacket packet (hostOf \<sigma>))
      | Background a \<Rightarrow>
          (case queue \<sigma> of
             [] \<Rightarrow> \<sigma>
           | t # q \<Rightarrow> after \<sigma> q (runTask a t (hostOf \<sigma>))))"

fun sysRun :: "(rat \<Rightarrow> 32 word) \<Rightarrow> sys \<Rightarrow> event list \<Rightarrow> sys" where
  "sysRun toF32 \<sigma> [] = \<sigma>"
| "sysRun toF32 \<sigma> (ev # evs) = sysRun toF32 (sysStep toF32 \<sigma> ev) evs"

definition initSys :: "int \<Rightarrow> sys" where
  "initSys totalSize = \<lparr> hostOf = initHost totalSize, queue = [], trace = [] \<rparr>"

text \<open>The model runs in flight: scheduled and not yet run to their end.\<close>

definition runsInFlight :: "sys \<Rightarrow> nat" where
  "runsInFlight \<sigma> = length (filter (\<lambda>t. t = RunModelTask) (queue \<sigma>))"

text \<open>
  The guard of the scheduler: at most one model run is in flight, and while one is, the
  start mark holds the sentinel.
\<close>

definition guarded :: "sys \<Rightarrow> bool" where
  "guarded \<sigma> =
     (runsInFlight \<sigma> \<le> 1 \<and> (runsInFlight \<sigma> = 1 \<longrightarrow> lastRunNumSamples (hostOf \<sigma>) = - 1))"

text \<open>The calls of the interpreter made so far.\<close>

fun isInvoke :: "effect \<Rightarrow> bool" where
  "isInvoke (InvokeModel _) = True"
| "isInvoke _ = False"

definition invocations :: "sys \<Rightarrow> effect list" where
  "invocations \<sigma> = filter isInvoke (trace \<sigma>)"

text \<open>
  An event during which \<^verbatim>\<open>loadModel\<close> runs: the start of the service, or the end of an
  upload that received all its bytes.
\<close>

definition loadsModel :: "sys \<Rightarrow> event \<Rightarrow> bool" where
  "loadsModel \<sigma> ev =
     (case ev of
        Start _ \<Rightarrow> True
      | Background a \<Rightarrow>
          (case queue \<sigma> of
             ReadModelTask sz # _ \<Rightarrow>
               fst (readModel (tfLoadOf a) (portOf a) sz (chunksOf a) (hostOf \<sigma>)) = Completed
           | _ \<Rightarrow> False)
      | _ \<Rightarrow> False)"

text \<open>An event that rebuilds the inputs: the start, or a write of a new configuration.\<close>

definition reconfigures :: "sys \<Rightarrow> event \<Rightarrow> bool" where
  "reconfigures \<sigma> ev =
     (case ev of
        Start _ \<Rightarrow> True
      | Packet (RegSetInputs d) \<Rightarrow> inputSettings (hostOf \<sigma>) \<noteq> Some d
      | _ \<Rightarrow> False)"

text \<open>
  A run of events in which every reconfiguration finds no model run in flight.
\<close>

fun reconfiguresAtRest :: "(rat \<Rightarrow> 32 word) \<Rightarrow> sys \<Rightarrow> event list \<Rightarrow> bool" where
  "reconfiguresAtRest toF32 \<sigma> [] = True"
| "reconfiguresAtRest toF32 \<sigma> (ev # evs) =
     (\<not> (reconfigures \<sigma> ev \<and> 0 < runsInFlight \<sigma>) \<and>
      reconfiguresAtRest toF32 (sysStep toF32 \<sigma> ev) evs)"

text \<open>The writes to the model store among the effects.\<close>

fun isWrite :: "effect \<Rightarrow> bool" where
  "isWrite (BinstoreWrite _ _) = True"
| "isWrite _ = False"

text \<open>Sample answers of the interpreter and a stand-in for the rounding to float32.\<close>

definition throwsOther :: "buffer \<Rightarrow> exn + 32 word list" where
  "throwsOther buf = Inl OtherExn"

definition throwsString :: "buffer \<Rightarrow> exn + 32 word list" where
  "throwsString buf = Inl (StrExn ''invoke failed'')"

definition loadThrowsOther :: "buffer \<Rightarrow> int option \<Rightarrow> exn + int" where
  "loadThrowsOther m hint = Inl OtherExn"

definition loadOk :: "buffer \<Rightarrow> int option \<Rightarrow> exn + int" where
  "loadOk m hint = Inr 1000"

definition floorF32 :: "rat \<Rightarrow> 32 word" where
  "floorF32 r = word_of_int \<lfloor>r\<rfloor>"

text \<open>
  Sample runs: a second configuration with a window of three frames, a report of two
  int16 elements at a given time, the events that configure the host, arm the automatic
  run on every sample and deliver two reports 100 ms apart, a host armed in the same
  way, a system whose host has a sticky error and a model run in its queue.
\<close>

definition exConfig3 :: buffer where
  "exConfig3 = [100, 0, 3, 0, 0, 0, 0, 0] @ exEntry"

definition exReport :: "int \<Rightarrow> jdpacket" where
  "exReport ts = \<lparr> service_command = 0x1101, timestamp = ts, data = [6, 0, 0xfe, 0xff] \<rparr>"

definition exTrace :: "event list" where
  "exTrace =
     [Packet (RegSetInputs exConfig), Packet (RegSetInt AutoInvokeEvery 1),
      Report 0 (exReport 1000), Report 0 (exReport 1100)]"

definition exArmed :: host where
  "exArmed = (initHost 0)\<lparr>autoInvokeSamples := 1, samplingInterval := 100, lastSample := 1000\<rparr>"

definition exFailed :: sys where
  "exFailed = \<lparr> hostOf = (initHost 0)\<lparr>lastError := Some ''invoke failed''\<rparr>,
                queue = [RunModelTask], trace = [] \<rparr>"

definition exAnswers :: answers where
  "exAnswers = \<lparr> invokeOf = throwsString, t0Of = 0, t1Of = 1, tfLoadOf = loadOk,
                 portOf = 1, chunksOf = [] \<rparr>"

text \<open>The writes to the model store that touch the header, the first 8 bytes of a region.\<close>

fun isHeaderWrite :: "effect \<Rightarrow> bool" where
  "isHeaderWrite (BinstoreWrite off _) = (off < 8)"
| "isHeaderWrite _ = False"

definition headerWrites :: "effect list \<Rightarrow> effect list" where
  "headerWrites es = filter isHeaderWrite es"

definition received :: "buffer list \<Rightarrow> nat" where
  "received chunks = sum_list (map length chunks)"

text \<open>
  A host whose store holds a model of 8 bytes, before its start, and an upload of 512
  bytes in one chunk.
\<close>

definition exStored :: host where
  "exStored = (initHost 4096)\<lparr>binstoreBufs := [[1, 2, 3, 4, 5, 6, 7, 8]]\<rparr>"

definition exHalf :: "buffer list" where
  "exHalf = [replicate 512 0]"

text \<open>An upload of 16 bytes in two chunks of 8.\<close>

definition exFull :: "buffer list" where
  "exFull = [[1, 2, 3, 4, 5, 6, 7, 8], [9, 10, 11, 12, 13, 14, 15, 16]]"

text \<open>
  A configuration whose one entry has the sample type \<open>0x11\<close>, outside the enumeration.
\<close>

definition exOddEntry :: buffer where
  "exOddEntry = [0, 0, 0, 0, 0, 0, 0, 0, 0x8c, 0x11, 0xfe, 0x13, 0, 4, 0x11, 0]"

definition exOddConfig :: buffer where
  "exOddConfig = [100, 0, 2, 0, 0, 0, 0, 0] @ exOddEntry"

text \<open>A host configured with \<open>exConfig\<close> that has counted 5 samples.\<close>

definition exCounted :: host where
  "exCounted = (initHost 0)\<lparr>inputSettings := Some exConfig, numSamples := 5\<rparr>"

section \<open>Properties\<close>

subsection \<open>Arithmetic of the runtime\<close>

lemma toInt32_id: "- (2 ^ 31) \<le> x \<Longrightarrow> x < 2 ^ 31 \<Longrightarrow> toInt32 x = x"
  by (simp add: toInt32_def)

lemma Math_idiv_nonneg:
  assumes "0 \<le> x" "x < 2 ^ 31" "0 < y" "y < 2 ^ 31"
  shows "Math_idiv x y = x div y"
proof -
  have q: "0 \<le> x div y" "x div y \<le> x"
    using assms zdiv_mono2 [of x 1 y] by (simp_all add: pos_imp_zdiv_nonneg_iff)
  show ?thesis
  proof (cases "x = 0")
    case True
    then show ?thesis using assms by (simp add: Math_idiv_def toInt32_id)
  next
    case False
    then have "sgn x = 1" "sgn y = 1" using assms by simp_all
    then show ?thesis using assms q by (simp add: Math_idiv_def toInt32_id)
  qed
qed

lemma nFrames_eq:
  assumes "0 \<le> d" "d + d div 2 < 2 ^ 31" "0 < i" "i < 2 ^ 31"
  shows "nFrames d i = (d + d div 2) div i"
proof -
  have "d < 2 ^ 31" using assms by linarith
  then have "shr1 d = d div 2" using assms by (simp add: shr1_def toInt32_id)
  then show ?thesis using assms by (simp add: nFrames_def Math_idiv_nonneg)
qed

subsection \<open>The sample multiplier\<close>

lemma shiftLoopPos_eq: "shiftLoopPos m sh = (if sh > 0 then (m / 2 ^ nat sh, 0) else (m, sh))"
proof (induction m sh rule: shiftLoopPos.induct)
  case (1 m sh)
  show ?case
  proof (cases "sh > 0")
    case True
    then have "nat sh = Suc (nat (sh - 1))" by simp
    with True 1 show ?thesis
      by (subst shiftLoopPos.simps) auto
  next
    case False
    then show ?thesis by (subst shiftLoopPos.simps) simp
  qed
qed

lemma shiftLoopNeg_eq: "shiftLoopNeg m sh = (if sh < 0 then (m * 2 ^ nat (- sh), 0) else (m, sh))"
proof (induction m sh rule: shiftLoopNeg.induct)
  case (1 m sh)
  show ?case
  proof (cases "sh < 0")
    case True
    then have "nat (- sh) = Suc (nat (- (sh + 1)))" by simp
    with True 1 show ?thesis
      by (subst shiftLoopNeg.simps) auto
  next
    case False
    then show ?thesis by (subst shiftLoopNeg.simps) simp
  qed
qed

lemma sampleMultOf_eq: "sampleMultOf e = 2 powi (- e)"
  by (cases "e > 0"; cases "e < 0")
     (auto simp add: sampleMultOf_def shiftLoopPos_eq shiftLoopNeg_eq power_int_def
        power_one_over)

subsection \<open>Storing float32 samples\<close>

lemma length_le32 [simp]: "length (le32 w) = 4"
  by (simp add: le32_def)

lemma length_setNumberF32 [simp]: "length (setNumberF32 buf off w) = length buf"
  by (simp add: setNumberF32_def)

lemma take_setNumberF32: "n \<le> off \<Longrightarrow> take n (setNumberF32 buf off w) = take n buf"
  by (simp add: setNumberF32_def)

lemma slice_setNumberF32:
  "off + 4 \<le> length buf \<Longrightarrow> drop off (take (off + 4) (setNumberF32 buf off w)) = le32 w"
  by (simp add: setNumberF32_def)

lemma length_storeLoop [simp]: "length (storeLoop f m xs i buf) = length buf"
  by (induction xs arbitrary: i buf) simp_all

lemma take_storeLoop: "take (4 * i) (storeLoop f m xs i buf) = take (4 * i) buf"
proof (induction xs arbitrary: i buf)
  case Nil
  show ?case by simp
next
  case (Cons x xs)
  let ?b = "setNumberF32 buf (i * 4) (f (of_int x * m))"
  have "take (4 * i) (storeLoop f m xs (i + 1) ?b)
        = take (4 * i) (take (4 * (i + 1)) (storeLoop f m xs (i + 1) ?b))"
    by (simp add: min_def)
  also have "\<dots> = take (4 * i) (take (4 * (i + 1)) ?b)"
    by (simp only: Cons.IH)
  also have "\<dots> = take (4 * i) buf"
    by (simp add: min_def take_setNumberF32)
  finally show ?case by simp
qed

lemma slice_storeLoop:
  "j < length xs \<Longrightarrow> 4 * (i + j) + 4 \<le> length buf \<Longrightarrow>
   Buffer_slice (storeLoop f m xs i buf) (4 * (i + j)) 4 = le32 (f (of_int (xs ! j) * m))"
proof (induction xs arbitrary: i j buf)
  case Nil
  then show ?case by simp
next
  case (Cons x xs)
  let ?b = "setNumberF32 buf (i * 4) (f (of_int x * m))"
  show ?case
  proof (cases j)
    case 0
    have "Buffer_slice (storeLoop f m xs (i + 1) ?b) (4 * i) 4
          = drop (4 * i) (take (4 * (i + 1)) (storeLoop f m xs (i + 1) ?b))"
      by (simp add: Buffer_slice_def drop_take)
    also have "\<dots> = drop (4 * i) (take (4 * (i + 1)) ?b)"
      by (simp only: take_storeLoop)
    also have "\<dots> = le32 (f (of_int x * m))"
    proof -
      have "i * 4 + 4 \<le> length buf" using Cons.prems 0 by simp
      from slice_setNumberF32 [OF this] show ?thesis by (simp add: ac_simps)
    qed
    finally show ?thesis using 0 by simp
  next
    case (Suc j')
    then have "Buffer_slice (storeLoop f m xs (i + 1) ?b) (4 * ((i + 1) + j')) 4
               = le32 (f (of_int (xs ! j') * m))"
      using Cons.prems by (intro Cons.IH) simp_all
    then show ?thesis using Suc by simp
  qed
qed

subsection \<open>What pushing and timing leave alone\<close>

lemma collectors_pushData [simp]: "collectors (fst (pushData s)) = collectors s"
  by (simp add: pushData_def Let_def)

lemma collectors_pushLoop [simp]: "collectors (fst (pushLoop n s es)) = collectors s"
  by (induction n arbitrary: s es) (simp_all add: split_beta Let_def)

lemma collectors_newData [simp]: "collectors (fst (newData t p s)) = collectors s"
  by (simp add: newData_def Let_def split_beta)

lemma Collector_handlePacket_collectors:
  assumes "idx < length (collectors s)"
    and "service_command packet = CMD_GET_REG + REG_READING"
  shows "collectors (fst (Collector_handlePacket toF32 idx packet s)) ! idx
         = (collectors s ! idx)\<lparr>c_lastSample :=
              storeLoop toF32 (sampleMult (collectors s ! idx))
                (toArrayOf (data packet) (numberFmt (sampleType (collectors s ! idx)))) 0
                (c_lastSample (collectors s ! idx))\<rparr>"
  using assms by (simp add: Collector_handlePacket_def Let_def split_beta)

lemma Collector_new_fields:
  "sampleMult (Collector_new entry) = sampleMultOf (getNumber entry Int8LE 15)"
  "sampleType (Collector_new entry) = getNumber entry UInt8LE 14"
  "numElts (Collector_new entry)
     = nat (Math_idiv (getNumber entry UInt8LE 13)
              (int (sizeOfFormat (numberFmt (getNumber entry UInt8LE 14)))))"
  "c_lastSample (Collector_new entry) = replicate (numElts (Collector_new entry) * 4) 0"
  by (simp_all add: Collector_new_def Let_def)

lemma exEntry_shift: "getNumber exEntry Int8LE 15 = 1"
  by (simp add: exEntry_def getNumber_def sintLE_def)

lemma Collector_new_exEntry:
  "Collector_new exEntry =
     \<lparr> devId = None, serviceClass = 0x13fe118c, requiredServiceNum = 0,
       sampleType = 0x90, sampleMult = 1 / 2, numElts = 2,
       c_lastSample = replicate 8 0 \<rparr>"
  by (simp add: Collector_new_def exEntry_def getNumber_def sintLE_def numberFmt_def
        sizeOfFormat_def Math_idiv_nonneg sampleMultOf_eq)

section \<open>The claims\<close>

subsection \<open>C4: the frame count of the timing reconciler\<close>

text \<open>
  C4, as the code has it. For an elapsed time \<open>d \<ge> 0\<close> (the timestamp minus the last
  tick, the last tick being the timestamp itself on the first event) whose one and a half
  fits 32 bits, and a sampling interval \<open>I > 0\<close>, the number of frames that \<^verbatim>\<open>_newData\<close>
  computes is \<open>\<lfloor>(d + \<lfloor>d / 2\<rfloor>) / I\<rfloor>\<close>; when it is 0 the event sends nothing and changes
  nothing but the initialisation of the last tick: window buffer, counters and collectors
  stay as they are.
\<close>

theorem newData_frame_count:
  assumes "d = ts - (if lastSample s = 0 then ts else lastSample s)"
    and "0 \<le> d" and "d + d div 2 < 2 ^ 31"
    and "0 < samplingInterval s" and "samplingInterval s < 2 ^ 31"
  shows "nFrames d (samplingInterval s) = (d + d div 2) div samplingInterval s \<and>
         (nFrames d (samplingInterval s) = 0 \<longrightarrow>
            newData ts isPost s
              = (if lastSample s = 0 then s\<lparr>lastSample := ts\<rparr> else s, []))"
proof
  show "nFrames d (samplingInterval s) = (d + d div 2) div samplingInterval s"
    using assms by (simp add: nFrames_eq)
  show "nFrames d (samplingInterval s) = 0 \<longrightarrow>
            newData ts isPost s
              = (if lastSample s = 0 then s\<lparr>lastSample := ts\<rparr> else s, [])"
    using assms(1) by (simp add: newData_def Let_def)
qed

text \<open>
  The theorem at a host with interval 100 whose last tick was at 1000, for an event at
  1050: no frame, and the event leaves the host as it was.
\<close>

theorem newData_frame_count_witness:
  "nFrames 50 100 = 0 \<and>
   newData 1050 True ((initHost 0)\<lparr>lastSample := 1000, samplingInterval := 100\<rparr>)
     = ((initHost 0)\<lparr>lastSample := 1000, samplingInterval := 100\<rparr>, [])"
  using newData_frame_count
    [of 50 1050 "(initHost 0)\<lparr>lastSample := 1000, samplingInterval := 100\<rparr>" True]
  by simp

text \<open>
  The frame count is not the rounding of \<open>d / I\<close>, halves up: half an interval rounds to
  one frame, and the code computes none.
\<close>

theorem nFrames_not_rounding: "nFrames 50 100 \<noteq> roundHalfUp 50 100"
  by (simp add: nFrames_eq roundHalfUp_def)

subsection \<open>C3: scaling of the decoded samples\<close>

text \<open>
  C3, as the code has it. For a collector made from a configuration entry with scale
  exponent \<open>e\<close> and a register-read report of the reading, every decoded element that
  has room in the last-sample vector is stored there, at four times its index, as the
  float32 of the element times \<open>2\<^sup>-\<^sup>e\<close>: a positive exponent divides.
\<close>

theorem Collector_handlePacket_scaled:
  assumes "c = Collector_new entry"
    and "e = getNumber entry Int8LE 15"
    and "idx < length (collectors s)"
    and "collectors s ! idx = c\<lparr>c_lastSample := b\<rparr>"
    and "service_command packet = CMD_GET_REG + REG_READING"
    and "arr = toArrayOf (data packet) (numberFmt (sampleType c))"
    and "i < length arr"
    and "4 * i + 4 \<le> length b"
  shows "Buffer_slice
           (c_lastSample (collectors (fst (Collector_handlePacket toF32 idx packet s)) ! idx))
           (4 * i) 4
         = le32 (toF32 (of_int (arr ! i) * 2 powi (- e)))"
proof -
  have m: "sampleMult c = 2 powi (- e)"
    using Collector_new_fields(1) [of entry] assms(1,2) by (simp add: sampleMultOf_eq)
  have "Buffer_slice (storeLoop toF32 (sampleMult c) arr 0 b) (4 * (0 + i)) 4
        = le32 (toF32 (of_int (arr ! i) * sampleMult c))"
    using assms(7,8) by (intro slice_storeLoop) simp_all
  then show ?thesis
    using assms(4,6) m
    by (simp add: Collector_handlePacket_collectors [OF assms(3,5)])
qed

text \<open>
  The theorem at the collector of \<open>exEntry\<close> (two int16 elements, exponent 1) and a
  report of the elements 6 and -2, with the floor as a stand-in for the rounding: the
  second slot holds the pattern of \<open>-2 \<sqdot> 2\<^sup>-\<^sup>1\<close>.
\<close>

theorem Collector_handlePacket_scaled_witness:
  "Buffer_slice
     (c_lastSample (collectors (fst (Collector_handlePacket (\<lambda>r. word_of_int \<lfloor>r\<rfloor>) 0
        \<lparr> service_command = 0x1101, timestamp = 0, data = [6, 0, 0xfe, 0xff] \<rparr>
        ((initHost 0)\<lparr>collectors := [Collector_new exEntry]\<rparr>))) ! 0)) (4 * 1) 4
   = le32 (word_of_int \<lfloor>of_int (- 2) * (2::rat) powi (- 1)\<rfloor>)"
proof -
  let ?c = "Collector_new exEntry"
  let ?s = "(initHost 0)\<lparr>collectors := [?c]\<rparr>"
  let ?p = "\<lparr> service_command = 0x1101, timestamp = 0, data = [6, 0, 0xfe, 0xff] \<rparr>"
  have h1: "?c = Collector_new exEntry" by simp
  have h2: "1 = getNumber exEntry Int8LE 15" by (simp add: exEntry_shift)
  have h3: "0 < length (collectors ?s)" by simp
  have h4: "collectors ?s ! 0 = ?c\<lparr>c_lastSample := replicate 8 0\<rparr>"
    by (simp add: Collector_new_exEntry)
  have h5: "service_command ?p = CMD_GET_REG + REG_READING"
    by (simp add: CMD_GET_REG_def REG_READING_def)
  have h6: "[6, - 2] = toArrayOf (data ?p) (numberFmt (sampleType ?c))"
    by (simp add: toArrayOf_def numberFmt_def toArray_def getNumber_def sintLE_def upt_rec
          Collector_new_exEntry)
  have h7: "1 < length [6, - 2 :: int]" by simp
  have h8: "4 * 1 + 4 \<le> length (replicate 8 (0 :: byte))" by simp
  show ?thesis
    using Collector_handlePacket_scaled
      [OF h1 h2 h3 h4 h5 h6 h7 h8, of "\<lambda>r. word_of_int \<lfloor>r\<rfloor>"]
    by simp
qed

text \<open>
  The multiplier is not \<open>2\<^sup>e\<close>: the collector of \<open>exEntry\<close>, whose exponent is 1,
  multiplies by one half.
\<close>

theorem sampleMult_not_two_to_e:
  "getNumber exEntry Int8LE 15 = 1 \<and>
   sampleMult (Collector_new exEntry) \<noteq> 2 powi 1"
  by (simp add: exEntry_shift Collector_new_exEntry)

subsection \<open>Lemmas on the window buffer and the configuration\<close>

lemma length_Buffer_write [simp]: "length (Buffer_write buf off src) = length buf"
  by (auto simp add: Buffer_write_def Let_def min_def)

lemma Buffer_write_fits:
  "0 \<le> off \<Longrightarrow> nat off + length src \<le> length buf \<Longrightarrow>
   Buffer_write buf off src = take (nat off) buf @ src @ drop (nat off + length src) buf"
  by (auto simp add: Buffer_write_def Let_def min_def)

lemma length_writeSamples [simp]: "length (writeSamples buf off cs) = length buf"
  by (induction cs arbitrary: buf off) simp_all

lemma writeSamples_fits:
  "0 \<le> off \<Longrightarrow> nat off + length (concat (map c_lastSample cs)) \<le> length buf \<Longrightarrow>
   writeSamples buf off cs
     = take (nat off) buf @ concat (map c_lastSample cs)
       @ drop (nat off + length (concat (map c_lastSample cs))) buf"
proof (induction cs arbitrary: buf off)
  case Nil
  then show ?case by simp
next
  case (Cons c cs)
  let ?l = "c_lastSample c"
  let ?b = "Buffer_write buf off ?l"
  have w: "?b = take (nat off) buf @ ?l @ drop (nat off + length ?l) buf"
    using Cons.prems by (intro Buffer_write_fits) simp_all
  have n: "nat (off + int (length ?l)) = nat off + length ?l"
    using Cons.prems by simp
  have "writeSamples ?b (off + int (length ?l)) cs
        = take (nat (off + int (length ?l))) ?b @ concat (map c_lastSample cs)
          @ drop (nat (off + int (length ?l)) + length (concat (map c_lastSample cs))) ?b"
    using Cons.prems by (intro Cons.IH) simp_all
  also have "take (nat (off + int (length ?l))) ?b = take (nat off) buf @ ?l"
    using Cons.prems by (simp add: n w)
  also have "drop (nat (off + int (length ?l)) + length (concat (map c_lastSample cs))) ?b
             = drop (nat off + length (concat (map c_lastSample (c # cs)))) buf"
    using Cons.prems by (simp add: n w ac_simps)
  finally show ?case by simp
qed

lemma Buffer_shift_eq: "Buffer_shift buf n = drop n buf @ replicate (min n (length buf)) 0"
  by (simp add: Buffer_shift_def min_def)

lemma pushData_fields:
  "samplesBuffer (fst (pushData s))
     = writeSamples (Buffer_shift (samplesBuffer s) (sampleSize s))
         (int (length (Buffer_shift (samplesBuffer s) (sampleSize s))) - int (sampleSize s))
         (collectors s)"
  "samplesInWindow (fst (pushData s)) = samplesInWindow s"
  "sampleSize (fst (pushData s)) = sampleSize s"
  "numSamples (fst (pushData s)) = numSamples s + 1"
  by (simp_all add: pushData_def Let_def)

lemma pushData_holdsFrames:
  assumes "holdsFrames s fs"
  shows "holdsFrames (fst (pushData s)) (drop 1 (fs @ [currentFrame s]))"
proof -
  let ?n = "sampleSize s"
  let ?fr = "currentFrame s"
  from assms have buf: "samplesBuffer s = concat fs"
    and len: "length fs = nat (samplesInWindow s)"
    and all: "list_all (\<lambda>f. length f = ?n) fs"
    and fr: "?n = length ?fr"
    unfolding holdsFrames_def by fast+
  have "samplesBuffer (fst (pushData s)) = concat (drop 1 (fs @ [?fr]))"
  proof (cases fs)
    case Nil
    then have "length (samplesBuffer (fst (pushData s))) = 0"
      using buf by (simp add: pushData_fields Buffer_shift_def)
    then show ?thesis using Nil by simp
  next
    case (Cons f fs')
    let ?r = "concat fs'"
    have lf: "length f = ?n" using all Cons by simp
    have sh: "Buffer_shift (samplesBuffer s) ?n = ?r @ replicate ?n 0"
      using buf Cons lf by (simp add: Buffer_shift_eq)
    have "writeSamples (?r @ replicate ?n 0) (int (length ?r)) (collectors s)
          = take (nat (int (length ?r))) (?r @ replicate ?n 0) @ concat (map c_lastSample (collectors s))
            @ drop (nat (int (length ?r)) + length (concat (map c_lastSample (collectors s))))
                (?r @ replicate ?n 0)"
      using fr by (intro writeSamples_fits) (simp_all add: currentFrame_def)
    also have "\<dots> = ?r @ ?fr"
      using fr by (simp add: currentFrame_def)
    finally show ?thesis
      using Cons sh by (simp add: pushData_fields)
  qed
  moreover have "list_all (\<lambda>f. length f = ?n) (drop 1 (fs @ [?fr]))"
    using all fr by (cases fs) simp_all
  moreover have "currentFrame (fst (pushData s)) = ?fr"
    by (simp add: currentFrame_def)
  ultimately show ?thesis
    using len fr by (simp add: holdsFrames_def pushData_fields)
qed

lemma getNumber_UInt8LE: "0 \<le> getNumber e UInt8LE k \<and> getNumber e UInt8LE k < 256"
proof (cases "drop k e")
  case Nil
  then show ?thesis by (simp add: getNumber_def)
next
  case (Cons b bs)
  have "uint b < 256" using uint_bounded [of b] by simp
  then show ?thesis using Cons by (simp add: getNumber_def)
qed

lemma getNumber_UInt16LE: "0 \<le> getNumber e UInt16LE k"
proof (cases "drop k e")
  case Nil
  then show ?thesis by (simp add: getNumber_def)
next
  case (Cons b bs)
  then show ?thesis by (cases bs) (simp_all add: getNumber_def)
qed

lemma Collector_new_size: "length (c_lastSample (Collector_new entry)) = entryFloatBytes entry"
proof (cases "numberFmt (getNumber entry UInt8LE 14)")
  case None
  then show ?thesis
    by (simp add: Collector_new_def Let_def entryFloatBytes_def entryFormat_def
        sizeOfFormat_def Math_idiv_def toInt32_def)
next
  case (Some fmt)
  let ?ss = "getNumber entry UInt8LE 13"
  have sz: "0 < int (sizeOfNumberFormat fmt)" "int (sizeOfNumberFormat fmt) < 2 ^ 31"
    by (cases fmt; simp)+
  have "Math_idiv ?ss (int (sizeOfNumberFormat fmt)) = ?ss div int (sizeOfNumberFormat fmt)"
    using getNumber_UInt8LE [of entry 13] sz by (intro Math_idiv_nonneg) simp_all
  then have "nat (Math_idiv ?ss (int (sizeOfNumberFormat fmt)))
             = nat ?ss div sizeOfNumberFormat fmt"
    using getNumber_UInt8LE [of entry 13] by (simp add: nat_div_distrib)
  then show ?thesis
    using Some by (simp add: Collector_new_def Let_def entryFloatBytes_def entrySampleSize_def
        entryFormat_def sizeOfFormat_def)
qed

lemma Collector_new_sizes:
  "length (concat (map c_lastSample (map Collector_new es))) = sum_list (map entryFloatBytes es)"
  by (induction es) (simp_all add: Collector_new_size)

lemma entries_count_step:
  fixes n :: nat
  assumes "0 < n"
  shows "(n + 15) div 16 = Suc ((n - 16 + 15) div 16)"
proof (cases "16 \<le> n")
  case True
  then obtain m where "n = m + 16" by (metis add.commute le_iff_add)
  then show ?thesis by simp
next
  case False
  with assms have "(n + 15) div 16 = 1" by (intro div_nat_eqI) simp_all
  with False show ?thesis by simp
qed

lemma map_upt_Suc_shift: "map f [0 ..< Suc m] = f 0 # map (\<lambda>k. f (Suc k)) [0 ..< m]"
  by (simp add: upt_conv_Cons map_Suc_upt [symmetric] comp_def del: upt_Suc)

lemma entriesFrom_step:
  assumes "off < length config"
  shows "entriesFrom config off = Buffer_slice config off 16 # entriesFrom config (off + 16)"
proof -
  have "(length config - off + 15) div 16 = Suc ((length config - (off + 16) + 15) div 16)"
    using entries_count_step [of "length config - off"] assms by simp
  then show ?thesis
    unfolding entriesFrom_def by (simp only: map_upt_Suc_shift) (simp add: add.assoc)
qed

lemma entriesFrom_end: "length config \<le> off \<Longrightarrow> entriesFrom config off = []"
  by (simp add: entriesFrom_def)

lemma configLoop_eq:
  "configLoop config off colls frameSz
   = (colls @ map Collector_new (entriesFrom config off),
      frameSz + sum_list (map entryFloatBytes (entriesFrom config off)))"
proof (induction config off colls frameSz rule: configLoop.induct)
  case (1 config off colls frameSz)
  show ?case
  proof (cases "off < length config")
    case False
    then show ?thesis
      by (subst configLoop.simps) (simp add: entriesFrom_end)
  next
    case True
    let ?e = "Buffer_slice config off 16"
    have es: "entriesFrom config off = ?e # entriesFrom config (off + 16)"
      using True by (rule entriesFrom_step)
    have "configLoop config off colls frameSz
          = configLoop config (off + 16) (colls @ [Collector_new ?e])
              (frameSz + length (c_lastSample (Collector_new ?e)))"
      using True by (subst configLoop.simps) (simp add: Let_def)
    also have "\<dots> = ((colls @ [Collector_new ?e])
                        @ map Collector_new (entriesFrom config (off + 16)),
                      (frameSz + length (c_lastSample (Collector_new ?e)))
                        + sum_list (map entryFloatBytes (entriesFrom config (off + 16))))"
      using True by (intro "1.IH") simp_all
    finally show ?thesis
      by (simp add: es Collector_new_size)
  qed
qed

lemma concat_replicate_zero:
  "concat (replicate w (replicate n (0::byte))) = replicate (w * n) 0"
  by (induction w) (simp_all add: replicate_add)

lemma configureInputs_eq:
  assumes "inputSettings s = Some config"
  shows "configureInputs s
         = (s\<lparr>samplingInterval := getNumber config UInt16LE 0,
               samplesInWindow := getNumber config UInt16LE 2,
               collectors := map Collector_new (entriesFrom config 8),
               sampleSize := floatFrameSize config,
               samplesBuffer :=
                 replicate (nat (getNumber config UInt16LE 2) * floatFrameSize config) 0,
               numSamples := 0, lastRunNumSamples := 0\<rparr>,
            map CollectorDestroy (collectors s) @
            concat (map (setRegs (getNumber config UInt16LE 0))
                      (map Collector_new (entriesFrom config 8))))"
  using assms
  by (simp add: configureInputs_def Let_def configLoop_eq floatFrameSize_def)

lemma entriesFrom_exConfig: "entriesFrom exConfig 8 = [exEntry]"
  by (simp add: entriesFrom_def exConfig_def exEntry_def Buffer_slice_def)

lemma valid_exConfig: "valid_config exConfig"
  by (simp add: valid_config_def entriesFrom_exConfig)
     (simp add: exConfig_def exEntry_def entryFormat_def getNumber_def numberFmt_def)

lemma exConfig_sizes:
  "getNumber exConfig UInt16LE 2 = 2" "getNumber exConfig UInt16LE 0 = 100"
  "floatFrameSize exConfig = 8" "declaredFrameSize exConfig = 4"
  by (simp_all add: floatFrameSize_def declaredFrameSize_def entriesFrom_exConfig
        entryFloatBytes_def entrySampleSize_def entryFormat_def)
     (simp_all add: exConfig_def exEntry_def getNumber_def numberFmt_def sizeOfFormat_def)

subsection \<open>C2: the window buffer\<close>

text \<open>
  C2, as the code has it. For every valid configuration blob, configuration allocates a
  window buffer of \<^verbatim>\<open>samplesInWindow\<close> times the sum over the collectors of
  the size of their float32 vector (four bytes for every whole element of the declared
  sample size), all zero frames; and a push on any host whose buffer holds
  \<^verbatim>\<open>samplesInWindow\<close> frames, oldest first, leaves it holding the same frames without
  the oldest, followed by the frame of the collectors' current last samples.
\<close>

theorem window_buffer_frames:
  assumes "valid_config config" and "inputSettings s = Some config"
  shows "\<exists>s' es. configureInputs s = (s', es) \<and>
           samplesInWindow s' = getNumber config UInt16LE 2 \<and>
           length (samplesBuffer s') = nat (samplesInWindow s') * floatFrameSize config \<and>
           holdsFrames s'
             (replicate (nat (samplesInWindow s')) (replicate (floatFrameSize config) 0)) \<and>
           (\<forall>t fs. holdsFrames t fs \<longrightarrow>
              holdsFrames (fst (pushData t)) (drop 1 (fs @ [currentFrame t])))"
proof -
  let ?cs = "map Collector_new (entriesFrom config 8)"
  obtain s' es where c: "configureInputs s = (s', es)"
    by (cases "configureInputs s") auto
  with configureInputs_eq [OF assms(2)]
  have s': "s' = s\<lparr>samplingInterval := getNumber config UInt16LE 0,
                     samplesInWindow := getNumber config UInt16LE 2,
                     collectors := ?cs, sampleSize := floatFrameSize config,
                     samplesBuffer :=
                       replicate (nat (getNumber config UInt16LE 2) * floatFrameSize config) 0,
                     numSamples := 0, lastRunNumSamples := 0\<rparr>"
    by simp
  have l: "length (concat (map c_lastSample ?cs)) = floatFrameSize config"
    by (simp only: Collector_new_sizes floatFrameSize_def)
  have "holdsFrames s'
          (replicate (nat (samplesInWindow s')) (replicate (floatFrameSize config) 0))"
    using l by (simp add: s' holdsFrames_def concat_replicate_zero currentFrame_def
        list_all_length)
  moreover have "length (samplesBuffer s') = nat (samplesInWindow s') * floatFrameSize config"
    by (simp add: s')
  moreover have "samplesInWindow s' = getNumber config UInt16LE 2"
    by (simp add: s')
  ultimately show ?thesis
    using c pushData_holdsFrames by blast
qed

text \<open>
  The theorem at \<open>exConfig\<close> (a window of two frames of two int16 elements, 8 bytes as
  float32) and at a push on \<open>exPushed\<close>.
\<close>

theorem window_buffer_frames_witness:
  "length (samplesBuffer (fst (configureInputs
       ((initHost 0)\<lparr>inputSettings := Some exConfig\<rparr>)))) = 2 * 8 \<and>
   samplesBuffer (fst (pushData exPushed))
     = [2, 2, 2, 2, 2, 2, 2, 2, 3, 3, 3, 3, 3, 3, 3, 3]"
proof -
  have h1: "inputSettings ((initHost 0)\<lparr>inputSettings := Some exConfig\<rparr>) = Some exConfig"
    by simp
  have h2: "holdsFrames exPushed [[1, 1, 1, 1, 1, 1, 1, 1], [2, 2, 2, 2, 2, 2, 2, 2]]"
    by (simp add: holdsFrames_def exPushed_def currentFrame_def)
  have h3: "currentFrame exPushed = [3, 3, 3, 3, 3, 3, 3, 3]"
    by (simp add: exPushed_def currentFrame_def)
  from window_buffer_frames [OF valid_exConfig h1] obtain s' es where
    c: "configureInputs ((initHost 0)\<lparr>inputSettings := Some exConfig\<rparr>) = (s', es)"
    and w: "samplesInWindow s' = getNumber exConfig UInt16LE 2"
    and l: "length (samplesBuffer s') = nat (samplesInWindow s') * floatFrameSize exConfig"
    and p: "\<forall>t fs. holdsFrames t fs \<longrightarrow>
              holdsFrames (fst (pushData t)) (drop 1 (fs @ [currentFrame t]))"
    by blast
  from p h2 have "holdsFrames (fst (pushData exPushed))
      (drop 1 ([[1, 1, 1, 1, 1, 1, 1, 1], [2, 2, 2, 2, 2, 2, 2, 2]] @ [currentFrame exPushed]))"
    by blast
  then have "samplesBuffer (fst (pushData exPushed))
             = [2, 2, 2, 2, 2, 2, 2, 2, 3, 3, 3, 3, 3, 3, 3, 3]"
    by (simp add: holdsFrames_def h3)
  then show ?thesis using c w l by (simp add: exConfig_sizes)
qed

text \<open>
  The buffer is not \<^verbatim>\<open>samplesInWindow\<close> times the sum of the declared sample sizes:
  \<open>exConfig\<close> declares 4 bytes per sample and gets frames of 8.
\<close>

theorem window_buffer_not_declared_size:
  "valid_config exConfig \<and>
   length (samplesBuffer (fst (configureInputs
       ((initHost 0)\<lparr>inputSettings := Some exConfig\<rparr>))))
   \<noteq> nat (getNumber exConfig UInt16LE 2) * declaredFrameSize exConfig"
proof -
  have h1: "inputSettings ((initHost 0)\<lparr>inputSettings := Some exConfig\<rparr>) = Some exConfig"
    by simp
  from configureInputs_eq [OF h1] show ?thesis
    by (simp add: exConfig_sizes valid_exConfig)
qed

subsection \<open>Lemmas on what the operations leave alone\<close>

lemma binstore_write_frame: "\<exists>b. binstore_write s flash off buf = s\<lparr>binstoreBufs := b\<rparr>"
proof (cases "flash < length (binstoreBufs s)")
  case True
  then show ?thesis by (auto simp add: binstore_write_def)
next
  case False
  then have "binstore_write s flash off buf = s\<lparr>binstoreBufs := binstoreBufs s\<rparr>"
    by (simp add: binstore_write_def)
  then show ?thesis by blast
qed

lemma readLoop_frame:
  "\<exists>b ws. snd (readLoop sz flash chunks off hb s es) = (s\<lparr>binstoreBufs := b\<rparr>, es @ ws)
          \<and> list_all isWrite ws"
proof (induction chunks arbitrary: off hb s es)
  case Nil
  show ?case
    by (rule exI [of _ "binstoreBufs s"], rule exI [of _ "[]"]) simp
next
  case (Cons buf rest)
  let ?hb1 = "if off = 0 then Buffer_write hb 0 buf else hb"
  let ?s1 = "if off = 0 then binstore_write s flash 8 (drop 8 buf) else binstore_write s flash off buf"
  let ?w1 = "if off = 0 then BinstoreWrite 8 (drop 8 buf) else BinstoreWrite off buf"
  obtain b1 where s1: "?s1 = s\<lparr>binstoreBufs := b1\<rparr>"
    using binstore_write_frame by (metis (full_types))
  have w1: "isWrite ?w1" by simp
  consider (fin) "int (off + length buf) \<ge> sz"
    | (thrown) "\<not> int (off + length buf) \<ge> sz" "(off + length buf) mod 8 \<noteq> 0"
    | (more) "\<not> int (off + length buf) \<ge> sz" "(off + length buf) mod 8 = 0"
    by blast
  then show ?case
  proof cases
    case fin
    obtain b2 where "binstore_write ?s1 flash 0 ?hb1 = ?s1\<lparr>binstoreBufs := b2\<rparr>"
      using binstore_write_frame by blast
    then have "snd (readLoop sz flash (buf # rest) off hb s es)
               = (s\<lparr>binstoreBufs := b2\<rparr>, es @ [?w1, BinstoreWrite 0 ?hb1])"
      using fin s1 by (simp add: Let_def split: if_splits)
    then show ?thesis
      using w1 by (intro exI [of _ b2] exI [of _ "[?w1, BinstoreWrite 0 ?hb1]"]) simp
  next
    case thrown
    then have "snd (readLoop sz flash (buf # rest) off hb s es)
               = (s\<lparr>binstoreBufs := b1\<rparr>, es @ [?w1])"
      using s1 by (simp add: Let_def split: if_splits)
    then show ?thesis
      using w1 by (intro exI [of _ b1] exI [of _ "[?w1]"]) simp
  next
    case more
    from Cons.IH [of "off + length buf" ?hb1 ?s1 "es @ [?w1]"] obtain b ws where
      r: "snd (readLoop sz flash rest (off + length buf) ?hb1 ?s1 (es @ [?w1]))
          = (?s1\<lparr>binstoreBufs := b\<rparr>, (es @ [?w1]) @ ws)" and ws: "list_all isWrite ws"
      by blast
    have "snd (readLoop sz flash (buf # rest) off hb s es)
          = snd (readLoop sz flash rest (off + length buf) ?hb1 ?s1 (es @ [?w1]))"
      using more by (simp add: Let_def split: if_splits)
    then have "snd (readLoop sz flash (buf # rest) off hb s es)
               = (s\<lparr>binstoreBufs := b\<rparr>, es @ (?w1 # ws))"
      using r s1 by simp
    moreover have "list_all isWrite (?w1 # ws)" using w1 ws by simp
    ultimately show ?thesis by blast
  qed
qed

lemma tasksOf_append [simp]: "tasksOf (es @ fs) = tasksOf es @ tasksOf fs"
  by (induction es rule: tasksOf.induct) simp_all

lemma writes_quiet: "list_all isWrite ws \<Longrightarrow> tasksOf ws = [] \<and> filter isInvoke ws = []"
  by (induction ws rule: tasksOf.induct) simp_all

lemma pushData_quiet [simp]:
  "tasksOf (snd (pushData s)) = []" "filter isInvoke (snd (pushData s)) = []"
  by (simp_all add: pushData_def Let_def sendLastSample_def)

lemma pushData_keeps [simp]:
  "lastError (fst (pushData s)) = lastError s"
  "lastRunNumSamples (fst (pushData s)) = lastRunNumSamples s"
  "autoInvokeSamples (fst (pushData s)) = autoInvokeSamples s"
  by (simp_all add: pushData_def Let_def)

lemma pushLoop_quiet [simp]:
  "tasksOf (snd (pushLoop n s es)) = tasksOf es"
  "filter isInvoke (snd (pushLoop n s es)) = filter isInvoke es"
  by (induction n arbitrary: s es) (simp_all add: split_beta)

lemma pushLoop_keeps [simp]:
  "lastError (fst (pushLoop n s es)) = lastError s"
  "lastRunNumSamples (fst (pushLoop n s es)) = lastRunNumSamples s"
  by (induction n arbitrary: s es) (simp_all add: split_beta)

lemma newData_keeps [simp]:
  "lastError (fst (newData ts p s)) = lastError s"
  "filter isInvoke (snd (newData ts p s)) = []"
  by (simp_all add: newData_def Let_def split_beta)

lemma newData_pre [simp]:
  "tasksOf (snd (newData ts False s)) = []"
  "lastRunNumSamples (fst (newData ts False s)) = lastRunNumSamples s"
  by (simp_all add: newData_def Let_def split_beta)

lemma newData_schedules:
  "tasksOf (snd (newData ts isPost s))
     = (if isPost \<and>
           nFrames (ts - (if lastSample s = 0 then ts else lastSample s)) (samplingInterval s) \<noteq> 0 \<and>
           autoInvokeSamples s \<noteq> 0 \<and> lastRunNumSamples s \<ge> 0 \<and>
           numSamples s + 1 - lastRunNumSamples s \<ge> autoInvokeSamples s
        then [RunModelTask] else [])"
  "lastRunNumSamples (fst (newData ts isPost s))
     = (if tasksOf (snd (newData ts isPost s)) = [] then lastRunNumSamples s else - 1)"
  by (simp_all add: newData_def Let_def split_beta pushData_def sendLastSample_def)

lemma newData_sched_cases:
  "(tasksOf (snd (newData ts p s)) = [] \<and>
    lastRunNumSamples (fst (newData ts p s)) = lastRunNumSamples s)
   \<or> (tasksOf (snd (newData ts p s)) = [RunModelTask] \<and> lastRunNumSamples s \<ge> 0 \<and>
       lastRunNumSamples (fst (newData ts p s)) = - 1)"
  by (simp add: newData_schedules)

lemma Collector_handlePacket_keeps [simp]:
  "lastError (fst (Collector_handlePacket toF32 idx packet s)) = lastError s"
  "filter isInvoke (snd (Collector_handlePacket toF32 idx packet s)) = []"
  by (simp_all add: Collector_handlePacket_def Let_def split_beta)

lemma Collector_handlePacket_schedules:
  "(tasksOf (snd (Collector_handlePacket toF32 idx packet s)) = [] \<and>
    lastRunNumSamples (fst (Collector_handlePacket toF32 idx packet s)) = lastRunNumSamples s)
   \<or> (tasksOf (snd (Collector_handlePacket toF32 idx packet s)) = [RunModelTask] \<and>
       lastRunNumSamples s \<ge> 0 \<and>
       lastRunNumSamples (fst (Collector_handlePacket toF32 idx packet s)) = - 1)"
proof (cases "idx < length (collectors s) \<and> service_command packet = CMD_GET_REG + REG_READING")
  case False
  then show ?thesis by (auto simp add: Collector_handlePacket_def)
next
  case True
  let ?s1 = "fst (newData (timestamp packet) False s)"
  let ?c = "collectors ?s1 ! idx"
  let ?c1 = "?c\<lparr>c_lastSample := storeLoop toF32 (sampleMult ?c)
                 (toArrayOf (data packet) (numberFmt (sampleType ?c))) 0 (c_lastSample ?c)\<rparr>"
  let ?s2 = "?s1\<lparr>collectors := (collectors ?s1)[idx := ?c1]\<rparr>"
  let ?r = "newData (timestamp packet) True ?s2"
  have t: "tasksOf (snd (Collector_handlePacket toF32 idx packet s)) = tasksOf (snd ?r)"
    and l: "lastRunNumSamples (fst (Collector_handlePacket toF32 idx packet s))
            = lastRunNumSamples (fst ?r)"
    using True by (simp_all add: Collector_handlePacket_def Let_def split_beta)
  have l2: "lastRunNumSamples ?s2 = lastRunNumSamples s" by simp
  from newData_sched_cases [of "timestamp packet" True ?s2] show ?thesis
    unfolding t l l2 .
qed

lemma configureInputs_keeps [simp]:
  "lastError (fst (configureInputs s)) = lastError s"
  "tasksOf (snd (configureInputs s)) = []"
  "filter isInvoke (snd (configureInputs s)) = []"
proof -
  have q: "tasksOf (map CollectorDestroy cs) = [] \<and> filter isInvoke (map CollectorDestroy cs) = []"
    for cs by (induction cs) simp_all
  have r: "tasksOf (concat (map (setRegs i) cs)) = [] \<and>
           filter isInvoke (concat (map (setRegs i) cs)) = []" for i cs
    by (induction cs) (simp_all add: setRegs_def)
  show "lastError (fst (configureInputs s)) = lastError s"
    "tasksOf (snd (configureInputs s)) = []"
    "filter isInvoke (snd (configureInputs s)) = []"
    using q r
    by (simp_all add: configureInputs_def Let_def split_beta split: option.splits)
qed

lemma handleReg_quiet [simp]:
  "tasksOf (snd (handleRegInt p r v)) = []" "filter isInvoke (snd (handleRegInt p r v)) = []"
  "tasksOf (handleRegBuffer p r b) = []" "filter isInvoke (handleRegBuffer p r b) = []"
  by (simp_all add: handleRegInt_def handleRegBuffer_def split: hostPacket.splits)

lemma handlePacket_keeps:
  "lastError (fst (handlePacket p s)) = lastError s"
  "filter isInvoke (snd (handlePacket p s)) = []"
  "filter (\<lambda>t. t = RunModelTask) (tasksOf (snd (handlePacket p s))) = []"
proof -
  have "lastError (fst (handlePacket p s)) = lastError s \<and>
        filter isInvoke (snd (handlePacket p s)) = [] \<and>
        filter (\<lambda>t. t = RunModelTask) (tasksOf (snd (handlePacket p s))) = []"
  proof (cases p)
    case (RegGet r)
    then show ?thesis
      by (cases r) (simp_all add: handlePacket_def Let_def split_beta sendLastSample_def)
  qed (simp_all add: handlePacket_def Let_def split_beta)
  then show "lastError (fst (handlePacket p s)) = lastError s"
    "filter isInvoke (snd (handlePacket p s)) = []"
    "filter (\<lambda>t. t = RunModelTask) (tasksOf (snd (handlePacket p s))) = []" by simp_all
qed

lemma handlePacket_lastRun:
  assumes "\<forall>d. p = RegSetInputs d \<longrightarrow> inputSettings s = Some d"
  shows "lastRunNumSamples (fst (handlePacket p s)) = lastRunNumSamples s"
proof (cases p)
  case (RegGet r)
  then show ?thesis
    by (cases r) (simp_all add: handlePacket_def Let_def split_beta)
qed (use assms in \<open>simp_all add: handlePacket_def Let_def split_beta\<close>)

lemma readModel_cases:
  "readModel tfLoad port sz chunks s = (Rejected, s, [])
   \<or> (\<exists>b ws out. out \<noteq> Completed \<and> list_all isWrite ws \<and>
         readModel tfLoad port sz chunks s
           = (out, (eraseModel s)\<lparr>binstoreBufs := b\<rparr>, SendPipePort port # ws))
   \<or> (\<exists>b ws. list_all isWrite ws \<and>
         readModel tfLoad port sz chunks s
           = (Completed, loadModel tfLoad ((eraseModel s)\<lparr>binstoreBufs := b\<rparr>),
              SendPipePort port # ws @ [PipeClose]))"
proof (cases "sz > binstoreTotalSize s - 8")
  case True
  then show ?thesis by (simp add: readModel_def)
next
  case False
  let ?s2 = "fst (binstore_addBuffer (eraseModel s) sz)"
  let ?fl = "snd (binstore_addBuffer (eraseModel s) sz)"
  let ?r = "readLoop sz ?fl chunks 0 (replicate 8 0) ?s2 [SendPipePort port]"
  from readLoop_frame [of sz ?fl chunks 0 "replicate 8 0" ?s2 "[SendPipePort port]"]
  obtain b ws where r: "snd ?r = (?s2\<lparr>binstoreBufs := b\<rparr>, [SendPipePort port] @ ws)"
    and ws: "list_all isWrite ws" by blast
  have s2: "?s2\<lparr>binstoreBufs := b\<rparr> = (eraseModel s)\<lparr>binstoreBufs := b\<rparr>"
    by (simp add: binstore_addBuffer_def)
  have rr: "?r = (fst ?r, (eraseModel s)\<lparr>binstoreBufs := b\<rparr>, SendPipePort port # ws)"
    using r s2 by (metis append_Cons append_Nil prod.collapse)
  show ?thesis
  proof (cases "fst ?r = Completed")
    case True
    then have "readModel tfLoad port sz chunks s
           = (Completed, loadModel tfLoad ((eraseModel s)\<lparr>binstoreBufs := b\<rparr>),
              SendPipePort port # ws @ [PipeClose])"
      using False rr by (simp add: readModel_def split_beta Let_def split: prod.splits outcome.splits)
    then show ?thesis using ws by blast
  next
    case c: False
    then have "readModel tfLoad port sz chunks s
           = (fst ?r, (eraseModel s)\<lparr>binstoreBufs := b\<rparr>, SendPipePort port # ws)"
      using False rr
      by (cases "fst ?r") (simp_all add: readModel_def split_beta Let_def split: prod.splits)
    then show ?thesis using ws c by blast
  qed
qed

lemma loadModel_keeps [simp]:
  "lastRunNumSamples (loadModel tfLoad s) = lastRunNumSamples s"
  "binstoreBufs (loadModel tfLoad s) = binstoreBufs s"
  by (simp_all add: loadModel_def Let_def split: option.splits sum.splits exn.splits)

lemma eraseModel_keeps [simp]:
  "lastRunNumSamples (eraseModel s) = lastRunNumSamples s"
  "lastError (eraseModel s) = lastError s"
  by (simp_all add: eraseModel_def binstore_erase_def)

lemma readModel_keeps:
  "lastRunNumSamples (fst (snd (readModel tfLoad port sz chunks s))) = lastRunNumSamples s"
  "tasksOf (snd (snd (readModel tfLoad port sz chunks s))) = []"
  "filter isInvoke (snd (snd (readModel tfLoad port sz chunks s))) = []"
  "fst (readModel tfLoad port sz chunks s) \<noteq> Completed \<Longrightarrow>
     lastError (fst (snd (readModel tfLoad port sz chunks s))) = lastError s"
proof -
  let ?r = "readModel tfLoad port sz chunks s"
  from readModel_cases [of tfLoad port sz chunks s]
  consider (rej) "?r = (Rejected, s, [])"
    | (part) b ws out where "out \<noteq> Completed" "list_all isWrite ws"
        "?r = (out, (eraseModel s)\<lparr>binstoreBufs := b\<rparr>, SendPipePort port # ws)"
    | (full) b ws where "list_all isWrite ws"
        "?r = (Completed, loadModel tfLoad ((eraseModel s)\<lparr>binstoreBufs := b\<rparr>),
               SendPipePort port # ws @ [PipeClose])"
    by blast
  then have "lastRunNumSamples (fst (snd ?r)) = lastRunNumSamples s \<and>
             tasksOf (snd (snd ?r)) = [] \<and> filter isInvoke (snd (snd ?r)) = [] \<and>
             (fst ?r \<noteq> Completed \<longrightarrow> lastError (fst (snd ?r)) = lastError s)"
  proof cases
    case rej
    then show ?thesis by simp
  next
    case part
    then show ?thesis using writes_quiet [of ws] by simp
  next
    case full
    then show ?thesis using writes_quiet [of ws] by simp
  qed
  then show "lastRunNumSamples (fst (snd ?r)) = lastRunNumSamples s"
    "tasksOf (snd (snd ?r)) = []" "filter isInvoke (snd (snd ?r)) = []"
    "fst ?r \<noteq> Completed \<Longrightarrow> lastError (fst (snd ?r)) = lastError s"
    by simp_all
qed

lemma after_simps [simp]:
  "hostOf (after \<sigma> q r) = fst r" "queue (after \<sigma> q r) = q @ tasksOf (snd r)"
  "trace (after \<sigma> q r) = trace \<sigma> @ snd r"
  by (simp_all add: after_def)

lemma runModel_skips: "truthy (lastError s) \<Longrightarrow> runModel invoke t0 t1 s = (s, [])"
  by (simp add: runModel_def)

lemma runModel_quiet [simp]: "tasksOf (snd (runModel invoke t0 t1 s)) = []"
  by (simp add: runModel_def Let_def)

lemma loadModel_cleared:
  "lastError (loadModel tfLoad s) = None \<longleftrightarrow>
     (\<exists>m. modelBuffer s = Some m \<and> (\<forall>e. tfLoad m (arenaSizeSetting s) \<noteq> Inl (StrExn e)))"
proof -
  have m: "modelBuffer (s\<lparr>lastError := None\<rparr>) = modelBuffer s"
    by (simp add: modelBuffer_def)
  show ?thesis
    by (auto simp add: loadModel_def Let_def m split: option.splits sum.splits exn.splits)
qed

lemma sysStep_keeps_error:
  assumes "truthy (lastError (hostOf \<sigma>))" and "\<not> loadsModel \<sigma> ev"
  shows "lastError (hostOf (sysStep toF32 \<sigma> ev)) = lastError (hostOf \<sigma>) \<and>
         invocations (sysStep toF32 \<sigma> ev) = invocations \<sigma>"
proof (cases ev)
  case (Start tfLoad)
  then show ?thesis using assms(2) by (simp add: loadsModel_def)
next
  case (Report idx packet)
  then show ?thesis by (simp add: sysStep_def invocations_def)
next
  case (Packet p)
  then show ?thesis
    by (simp add: sysStep_def invocations_def handlePacket_keeps)
next
  case (Background a)
  show ?thesis
  proof (cases "queue \<sigma>")
    case Nil
    then show ?thesis using Background by (simp add: sysStep_def)
  next
    case (Cons t q)
    then have s': "sysStep toF32 \<sigma> ev = after \<sigma> q (runTask a t (hostOf \<sigma>))"
      using Background by (simp add: sysStep_def)
    show ?thesis
    proof (cases t)
      case RunModelTask
      then show ?thesis
        using s' assms(1) by (simp add: runTask_def runModel_skips invocations_def)
    next
      case (ReadModelTask sz)
      then have "fst (readModel (tfLoadOf a) (portOf a) sz (chunksOf a) (hostOf \<sigma>)) \<noteq> Completed"
        using assms(2) Background Cons by (simp add: loadsModel_def)
      then show ?thesis
        using s' ReadModelTask by (simp add: runTask_def readModel_keeps invocations_def)
    qed
  qed
qed

lemma mem_tasksOf: "RunInBackground t \<in> set es \<longleftrightarrow> t \<in> set (tasksOf es)"
  by (induction es rule: tasksOf.induct) auto

lemma runsInFlight_after:
  "runsInFlight (after \<sigma> q r)
     = length (filter (\<lambda>t. t = RunModelTask) q)
       + length (filter (\<lambda>t. t = RunModelTask) (tasksOf (snd r)))"
  by (simp add: runsInFlight_def)

lemma guarded_at_rest: "runsInFlight \<sigma> = 0 \<Longrightarrow> guarded \<sigma>"
  by (simp add: guarded_def)

lemma guarded_step:
  assumes "guarded \<sigma>" and "\<not> (reconfigures \<sigma> ev \<and> 0 < runsInFlight \<sigma>)"
  shows "guarded (sysStep toF32 \<sigma> ev)"
proof (cases ev)
  case (Start tfLoad)
  then have "runsInFlight \<sigma> = 0" using assms(2) by (simp add: reconfigures_def)
  then have "runsInFlight (sysStep toF32 \<sigma> ev) = 0"
    using Start by (simp add: sysStep_def runsInFlight_def start_def)
  then show ?thesis by (rule guarded_at_rest)
next
  case (Report idx packet)
  then have s': "sysStep toF32 \<sigma> ev
                 = after \<sigma> (queue \<sigma>) (Collector_handlePacket toF32 idx packet (hostOf \<sigma>))"
    by (simp add: sysStep_def)
  have q: "length (filter (\<lambda>t. t = RunModelTask) (queue \<sigma>)) = runsInFlight \<sigma>"
    by (simp add: runsInFlight_def)
  from Collector_handlePacket_schedules [of toF32 idx packet "hostOf \<sigma>"] assms(1)
  show ?thesis
    unfolding s' guarded_def runsInFlight_after q by auto
next
  case (Packet p)
  then have s': "sysStep toF32 \<sigma> ev = after \<sigma> (queue \<sigma>) (handlePacket p (hostOf \<sigma>))"
    by (simp add: sysStep_def)
  have n: "runsInFlight (sysStep toF32 \<sigma> ev) = runsInFlight \<sigma>"
    by (simp add: s' runsInFlight_def handlePacket_keeps(3))
  show ?thesis
  proof (cases "reconfigures \<sigma> ev")
    case True
    then have "runsInFlight \<sigma> = 0" using assms(2) by simp
    then show ?thesis using n by (simp add: guarded_at_rest)
  next
    case False
    then have "\<forall>d. p = RegSetInputs d \<longrightarrow> inputSettings (hostOf \<sigma>) = Some d"
      using Packet by (auto simp add: reconfigures_def)
    then have "lastRunNumSamples (fst (handlePacket p (hostOf \<sigma>)))
               = lastRunNumSamples (hostOf \<sigma>)"
      by (rule handlePacket_lastRun)
    then show ?thesis
      using assms(1) n by (simp add: guarded_def s')
  qed
next
  case (Background a)
  show ?thesis
  proof (cases "queue \<sigma>")
    case Nil
    then show ?thesis using assms(1) Background by (simp add: sysStep_def)
  next
    case (Cons t q)
    then have s': "sysStep toF32 \<sigma> ev = after \<sigma> q (runTask a t (hostOf \<sigma>))"
      using Background by (simp add: sysStep_def)
    show ?thesis
    proof (cases t)
      case RunModelTask
      then show ?thesis
        using s' assms(1) Cons by (simp add: runTask_def guarded_def runsInFlight_def)
    next
      case (ReadModelTask sz)
      then show ?thesis
        using s' assms(1) Cons
        by (simp add: runTask_def guarded_def runsInFlight_def readModel_keeps)
    qed
  qed
qed

lemma guarded_run:
  "guarded \<sigma> \<Longrightarrow> reconfiguresAtRest toF32 \<sigma> evs \<Longrightarrow> guarded (sysRun toF32 \<sigma> evs)"
proof (induction evs arbitrary: \<sigma>)
  case Nil
  then show ?case by simp
next
  case (Cons ev evs)
  from Cons.prems have "guarded (sysStep toF32 \<sigma> ev)"
    by (intro guarded_step) simp_all
  with Cons show ?case by simp
qed

subsection \<open>C10: a model run always reports\<close>

text \<open>
  C10. A run of the model that a sticky error does not skip calls the interpreter and then
  sends one report of the \<^verbatim>\<open>Outputs\<close> register with the output vector as it is after the
  run; the last run time is the difference of the two clock readings and the start mark
  is the sample count at the start. When the interpreter throws, the output vector is the
  one from before, unchanged; when it answers, it is the packed answer.
\<close>

theorem runModel_always_reports:
  assumes "\<not> truthy (lastError s)"
  shows "snd (runModel invoke t0 t1 s)
           = [InvokeModel (samplesBuffer s),
              SendReport Outputs (PBuf (outputs (fst (runModel invoke t0 t1 s))))] \<and>
         execTime (fst (runModel invoke t0 t1 s)) = t1 - t0 \<and>
         lastRunNumSamples (fst (runModel invoke t0 t1 s)) = numSamples s \<and>
         (case invoke (samplesBuffer s) of
            Inl e \<Rightarrow> outputs (fst (runModel invoke t0 t1 s)) = outputs s
          | Inr res \<Rightarrow> outputs (fst (runModel invoke t0 t1 s)) = packArrayF32 res)"
  using assms
  by (simp add: runModel_def Let_def split: sum.splits exn.splits)

text \<open>The theorem at a run that throws, on a host with four output bytes and 7 samples.\<close>

theorem runModel_always_reports_witness:
  "snd (runModel throwsString 10 25 ((initHost 0)\<lparr>outputs := [1, 2, 3, 4], numSamples := 7\<rparr>))
     = [InvokeModel [], SendReport Outputs (PBuf [1, 2, 3, 4])] \<and>
   execTime (fst (runModel throwsString 10 25
      ((initHost 0)\<lparr>outputs := [1, 2, 3, 4], numSamples := 7\<rparr>))) = 15 \<and>
   lastRunNumSamples (fst (runModel throwsString 10 25
      ((initHost 0)\<lparr>outputs := [1, 2, 3, 4], numSamples := 7\<rparr>))) = 7"
proof -
  have h: "\<not> truthy (lastError ((initHost 0)\<lparr>outputs := [1, 2, 3, 4], numSamples := 7\<rparr>))"
    by (simp add: truthy_def initHost_def)
  show ?thesis
    using runModel_always_reports [OF h, of throwsString 10 25]
    by (simp add: throwsString_def initHost_def)
qed

subsection \<open>C6: the sticky error\<close>

text \<open>
  C6, as the code has it. A model run that throws a string sets the last error to it; a
  run that throws a value that is not a string leaves the last error as it was; and a
  run attempt on a host whose last error is set (a string that is not empty) returns
  at once: no call of the interpreter, no report, no change. A set last error stays, and
  the interpreter is not called, through every event during which no model is loaded.
  A model load leaves the last error cleared exactly when a model is present and the
  interpreter's load does not throw a string.
\<close>

theorem sticky_last_error:
  "(\<not> truthy (lastError s) \<and> invoke (samplesBuffer s) = Inl (StrExn e) \<longrightarrow>
      lastError (fst (runModel invoke t0 t1 s)) = Some e) \<and>
   (invoke (samplesBuffer s) = Inl OtherExn \<longrightarrow>
      lastError (fst (runModel invoke t0 t1 s)) = lastError s) \<and>
   (truthy (lastError s) \<longrightarrow> runModel invoke t0 t1 s = (s, [])) \<and>
   (truthy (lastError (hostOf \<sigma>)) \<and> \<not> loadsModel \<sigma> ev \<longrightarrow>
      lastError (hostOf (sysStep toF32 \<sigma> ev)) = lastError (hostOf \<sigma>) \<and>
      invocations (sysStep toF32 \<sigma> ev) = invocations \<sigma>) \<and>
   (lastError (loadModel tfLoad s) = None \<longleftrightarrow>
      (\<exists>m. modelBuffer s = Some m \<and> (\<forall>e. tfLoad m (arenaSizeSetting s) \<noteq> Inl (StrExn e))))"
proof (intro conjI impI)
  show "lastError (fst (runModel invoke t0 t1 s)) = Some e"
    if "\<not> truthy (lastError s) \<and> invoke (samplesBuffer s) = Inl (StrExn e)"
    using that by (simp add: runModel_def Let_def)
  show "lastError (fst (runModel invoke t0 t1 s)) = lastError s"
    if "invoke (samplesBuffer s) = Inl OtherExn"
    using that by (simp add: runModel_def Let_def)
  show "runModel invoke t0 t1 s = (s, [])" if "truthy (lastError s)"
    using that by (rule runModel_skips)
  show "lastError (hostOf (sysStep toF32 \<sigma> ev)) = lastError (hostOf \<sigma>)"
    "invocations (sysStep toF32 \<sigma> ev) = invocations \<sigma>"
    if "truthy (lastError (hostOf \<sigma>)) \<and> \<not> loadsModel \<sigma> ev"
    using that sysStep_keeps_error by blast+
  show "lastError (loadModel tfLoad s) = None \<longleftrightarrow>
      (\<exists>m. modelBuffer s = Some m \<and> (\<forall>e. tfLoad m (arenaSizeSetting s) \<noteq> Inl (StrExn e)))"
    by (rule loadModel_cleared)
qed

text \<open>
  The theorem at a run that throws a string and the attempt after it, at a run that
  throws another value on a host with an error that is the empty string, at a scheduled
  run on a host with a sticky error, and at a load with no model in the store.
\<close>

theorem sticky_last_error_witness:
  "lastError (fst (runModel throwsString 10 25 (initHost 0))) = Some ''invoke failed'' \<and>
   runModel throwsString 30 40 (fst (runModel throwsString 10 25 (initHost 0)))
     = (fst (runModel throwsString 10 25 (initHost 0)), []) \<and>
   lastError (fst (runModel throwsOther 10 25 ((initHost 0)\<lparr>lastError := Some []\<rparr>)))
     = Some [] \<and>
   lastError (hostOf (sysStep floorF32 exFailed (Background exAnswers)))
     = Some ''invoke failed'' \<and>
   invocations (sysStep floorF32 exFailed (Background exAnswers)) = [] \<and>
   lastError (loadModel loadOk (initHost 0)) \<noteq> None"
proof -
  let ?s1 = "fst (runModel throwsString 10 25 (initHost 0))"
  let ?s2 = "(initHost 0)\<lparr>lastError := Some []\<rparr>"
  have a: "\<not> truthy (lastError (initHost 0)) \<and>
           throwsString (samplesBuffer (initHost 0)) = Inl (StrExn ''invoke failed'')"
    by (simp add: truthy_def initHost_def throwsString_def)
  from sticky_last_error [of "initHost 0" throwsString "''invoke failed''" 10 25] a
  have e: "lastError ?s1 = Some ''invoke failed''" by blast
  then have b: "truthy (lastError ?s1)" by (simp add: truthy_def)
  from sticky_last_error [of ?s1 throwsString _ 30 40] b
  have r: "runModel throwsString 30 40 ?s1 = (?s1, [])" by blast
  have "throwsOther (samplesBuffer ?s2) = Inl OtherExn" by (simp add: throwsOther_def)
  with sticky_last_error [of ?s2 throwsOther _ 10 25]
  have o: "lastError (fst (runModel throwsOther 10 25 ?s2)) = Some []" by simp
  have c: "truthy (lastError (hostOf exFailed)) \<and> \<not> loadsModel exFailed (Background exAnswers)"
    by (simp add: exFailed_def truthy_def loadsModel_def)
  from sticky_last_error [of _ _ _ _ _ exFailed "Background exAnswers" floorF32] c
  have k: "lastError (hostOf (sysStep floorF32 exFailed (Background exAnswers)))
             = Some ''invoke failed''"
    "invocations (sysStep floorF32 exFailed (Background exAnswers)) = []"
    by (simp_all add: exFailed_def invocations_def)
  have "modelBuffer (initHost 0) = None" by (simp add: modelBuffer_def initHost_def)
  with sticky_last_error [of "initHost 0" _ _ _ _ _ _ _ loadOk]
  have l: "lastError (loadModel loadOk (initHost 0)) \<noteq> None" by simp
  from e r o k l show ?thesis by blast
qed

text \<open>
  A failing run does not always set the sticky error: when the interpreter throws a value
  that is not a string, the last error stays \<^verbatim>\<open>null\<close> and the next run calls the
  interpreter again.
\<close>

theorem failing_run_not_sticky:
  "lastError (fst (runModel throwsOther 10 25 (initHost 0))) = None \<and>
   snd (runModel throwsOther 30 40 (fst (runModel throwsOther 10 25 (initHost 0))))
     = [InvokeModel [], SendReport Outputs (PBuf [])]"
  by (simp add: runModel_def throwsOther_def truthy_def initHost_def)

subsection \<open>C5: automatic runs and the run in flight\<close>

text \<open>
  C5, as the code has it. An event of the timing reconciler schedules a model run exactly
  when it is a post-phase event with a frame count that is not 0, the threshold is not
  0, the start mark is not negative (no run in flight), and the sample count after the
  push minus the start mark reaches the threshold; it then leaves -1 in the start
  mark. A run that is not skipped puts the sample count at its start back into the mark.
  No run is in flight at first, and every event keeps the guard (at most one run in
  flight, the mark being -1 while there is one), but a reconfiguration made while a
  run is in flight; so the guard holds after every run of events from the initial
  state in which each reconfiguration finds no run in flight.
\<close>

theorem auto_invoke_guard:
  "(RunInBackground RunModelTask \<in> set (snd (newData ts isPost s)) \<longleftrightarrow>
      isPost \<and>
      nFrames (ts - (if lastSample s = 0 then ts else lastSample s)) (samplingInterval s) \<noteq> 0 \<and>
      autoInvokeSamples s \<noteq> 0 \<and> lastRunNumSamples s \<ge> 0 \<and>
      numSamples s + 1 - lastRunNumSamples s \<ge> autoInvokeSamples s) \<and>
   (RunInBackground RunModelTask \<in> set (snd (newData ts isPost s)) \<longrightarrow>
      lastRunNumSamples (fst (newData ts isPost s)) = - 1) \<and>
   (\<not> truthy (lastError s) \<longrightarrow>
      lastRunNumSamples (fst (runModel invoke t0 t1 s)) = numSamples s) \<and>
   guarded (initSys totalSize) \<and>
   (guarded \<sigma> \<and> \<not> (reconfigures \<sigma> ev \<and> 0 < runsInFlight \<sigma>) \<longrightarrow>
      guarded (sysStep toF32 \<sigma> ev)) \<and>
   (reconfiguresAtRest toF32 (initSys totalSize) evs \<longrightarrow>
      guarded (sysRun toF32 (initSys totalSize) evs) \<and>
      runsInFlight (sysRun toF32 (initSys totalSize) evs) \<le> 1)"
proof (intro conjI impI)
  show "RunInBackground RunModelTask \<in> set (snd (newData ts isPost s)) \<longleftrightarrow>
      isPost \<and>
      nFrames (ts - (if lastSample s = 0 then ts else lastSample s)) (samplingInterval s) \<noteq> 0 \<and>
      autoInvokeSamples s \<noteq> 0 \<and> lastRunNumSamples s \<ge> 0 \<and>
      numSamples s + 1 - lastRunNumSamples s \<ge> autoInvokeSamples s"
    by (simp add: mem_tasksOf newData_schedules(1))
  show "lastRunNumSamples (fst (newData ts isPost s)) = - 1"
    if "RunInBackground RunModelTask \<in> set (snd (newData ts isPost s))"
    using that newData_schedules(2) [of ts isPost s] by (auto simp add: mem_tasksOf)
  show "lastRunNumSamples (fst (runModel invoke t0 t1 s)) = numSamples s"
    if "\<not> truthy (lastError s)"
    using that by (simp add: runModel_def Let_def)
  show g0: "guarded (initSys totalSize)"
    by (simp add: guarded_def runsInFlight_def initSys_def)
  show "guarded (sysStep toF32 \<sigma> ev)"
    if "guarded \<sigma> \<and> \<not> (reconfigures \<sigma> ev \<and> 0 < runsInFlight \<sigma>)"
    using that guarded_step by blast
  show "guarded (sysRun toF32 (initSys totalSize) evs)"
    if "reconfiguresAtRest toF32 (initSys totalSize) evs"
    using g0 that by (rule guarded_run)
  then show "runsInFlight (sysRun toF32 (initSys totalSize) evs) \<le> 1"
    if "reconfiguresAtRest toF32 (initSys totalSize) evs"
    using that by (simp add: guarded_def)
qed

text \<open>
  The theorem at an armed host for a post-phase event one interval after the last tick,
  and at the events of \<open>exTrace\<close>, which configure the inputs at rest and after which
  one run is in flight, followed by one more report.
\<close>

theorem auto_invoke_guard_witness:
  "RunInBackground RunModelTask \<in> set (snd (newData 1100 True exArmed)) \<and>
   lastRunNumSamples (fst (newData 1100 True exArmed)) = - 1 \<and>
   lastRunNumSamples (fst (runModel throwsString 10 25 exArmed)) = 0 \<and>
   runsInFlight (sysRun floorF32 (initSys 0) exTrace) = 1 \<and>
   guarded (sysRun floorF32 (initSys 0) exTrace) \<and>
   guarded (sysStep floorF32 (sysRun floorF32 (initSys 0) exTrace) (Report 0 (exReport 1200)))"
proof -
  have n: "nFrames 100 100 = 1" by (simp add: nFrames_eq)
  have c: "True \<and>
      nFrames (1100 - (if lastSample exArmed = 0 then 1100 else lastSample exArmed))
        (samplingInterval exArmed) \<noteq> 0 \<and>
      autoInvokeSamples exArmed \<noteq> 0 \<and> lastRunNumSamples exArmed \<ge> 0 \<and>
      numSamples exArmed + 1 - lastRunNumSamples exArmed \<ge> autoInvokeSamples exArmed"
    by (simp add: exArmed_def initHost_def n)
  have t: "\<not> truthy (lastError exArmed)" by (simp add: truthy_def initHost_def exArmed_def)
  let ?\<sigma> = "sysRun floorF32 (initSys 0) exTrace"
  let ?ev = "Report 0 (exReport 1200)"
  have r: "reconfiguresAtRest floorF32 (initSys 0) exTrace" by code_simp
  have f: "runsInFlight ?\<sigma> = 1" by code_simp
  from auto_invoke_guard [of 1100 True exArmed throwsString 10 25 0 _ _ floorF32 exTrace] r
  have g: "guarded ?\<sigma>" by blast
  have s: "\<not> (reconfigures ?\<sigma> ?ev \<and> 0 < runsInFlight ?\<sigma>)"
    by (simp add: reconfigures_def)
  from auto_invoke_guard [of 1100 True exArmed throwsString 10 25 0 ?\<sigma> ?ev floorF32 exTrace]
    c t g s
  have "RunInBackground RunModelTask \<in> set (snd (newData 1100 True exArmed))"
    "lastRunNumSamples (fst (newData 1100 True exArmed)) = - 1"
    "lastRunNumSamples (fst (runModel throwsString 10 25 exArmed)) = numSamples exArmed"
    "guarded (sysStep floorF32 ?\<sigma> ?ev)"
    by blast+
  then show ?thesis using f g by (simp add: initHost_def exArmed_def)
qed

text \<open>
  The sentinel is not restored by the end of a run only: a write of a new configuration
  resets the start mark to 0 while a run is in flight, and the next report schedules a
  second run.
\<close>

theorem reconfiguration_overlaps_runs:
  "runsInFlight
     (sysRun floorF32 (initSys 0)
        (exTrace @ [Packet (RegSetInputs exConfig3), Report 0 (exReport 1200)])) = 2"
  by code_simp

subsection \<open>Lemmas on the upload\<close>

lemma take8_Buffer_write: "8 \<le> off \<Longrightarrow> take 8 (Buffer_write buf (int off) src) = take 8 buf"
  by (simp add: Buffer_write_def Let_def)

lemma binstore_write_region:
  "length (binstoreBufs (binstore_write s flash off buf)) = length (binstoreBufs s)"
  "8 \<le> off \<Longrightarrow> take 8 (binstoreBufs (binstore_write s flash off buf) ! flash)
                 = take 8 (binstoreBufs s ! flash)"
  by (simp_all add: binstore_write_def take8_Buffer_write)

lemma headerWrites_append [simp]: "headerWrites (es @ fs) = headerWrites es @ headerWrites fs"
  by (simp add: headerWrites_def)

lemma readLoop_header:
  assumes "off mod 8 = 0"
  shows "(fst (readLoop sz flash chunks off hb s es) \<noteq> Completed \<longrightarrow>
            headerWrites (snd (snd (readLoop sz flash chunks off hb s es))) = headerWrites es \<and>
            take 8 (binstoreBufs (fst (snd (readLoop sz flash chunks off hb s es))) ! flash)
              = take 8 (binstoreBufs s ! flash)) \<and>
         (fst (readLoop sz flash chunks off hb s es) = Completed \<longrightarrow>
            (\<exists>ws h. snd (snd (readLoop sz flash chunks off hb s es))
                      = es @ ws @ [BinstoreWrite 0 h] \<and> headerWrites ws = [] \<and>
                    int (off + received (take (length ws) chunks)) \<ge> sz) \<and>
            int (off + received chunks) \<ge> sz) \<and>
         fst (readLoop sz flash chunks off hb s es) \<noteq> Rejected \<and>
         length (binstoreBufs (fst (snd (readLoop sz flash chunks off hb s es))))
           = length (binstoreBufs s)"
  using assms
proof (induction chunks arbitrary: off hb s es)
  case Nil
  then show ?case by simp
next
  case (Cons buf rest)
  let ?hb1 = "if off = 0 then Buffer_write hb 0 buf else hb"
  let ?o1 = "if off = 0 then 8 else off"
  let ?d1 = "if off = 0 then drop 8 buf else buf"
  let ?s1 = "binstore_write s flash ?o1 ?d1"
  let ?w1 = "BinstoreWrite ?o1 ?d1"
  have o1: "8 \<le> ?o1" using Cons.prems by (auto simp add: mod_eq_0_iff_dvd elim: dvdE)
  then have w1: "headerWrites [?w1] = []" by (simp add: headerWrites_def)
  have r1: "take 8 (binstoreBufs ?s1 ! flash) = take 8 (binstoreBufs s ! flash)"
    "length (binstoreBufs ?s1) = length (binstoreBufs s)"
    using o1 by (simp_all only: binstore_write_region)
  consider (fin) "int (off + length buf) \<ge> sz"
    | (thr) "\<not> int (off + length buf) \<ge> sz" "(off + length buf) mod 8 \<noteq> 0"
    | (more) "\<not> int (off + length buf) \<ge> sz" "(off + length buf) mod 8 = 0"
    by blast
  then show ?case
  proof cases
    case fin
    then have "readLoop sz flash (buf # rest) off hb s es
               = (Completed, binstore_write ?s1 flash 0 ?hb1, (es @ [?w1]) @ [BinstoreWrite 0 ?hb1])"
      by (simp add: Let_def)
    moreover have "headerWrites [?w1] = [] \<and>
        int (off + received (take (length [?w1]) (buf # rest))) \<ge> sz"
      using fin w1 by (simp add: received_def)
    ultimately show ?thesis
      using fin r1(2) by (auto simp add: received_def binstore_write_region(1))
  next
    case thr
    then have "readLoop sz flash (buf # rest) off hb s es
               = (Thrown ''invalid model stream size'', ?s1, es @ [?w1])"
      by (simp add: Let_def)
    then show ?thesis using w1 r1 by simp
  next
    case more
    let ?r = "readLoop sz flash rest (off + length buf) ?hb1 ?s1 (es @ [?w1])"
    have e: "readLoop sz flash (buf # rest) off hb s es = ?r"
      using more by (simp add: Let_def)
    note ih = Cons.IH [OF more(2), of ?hb1 ?s1 "es @ [?w1]"]
    have a: "fst ?r \<noteq> Completed \<longrightarrow>
            headerWrites (snd (snd ?r)) = headerWrites es \<and>
            take 8 (binstoreBufs (fst (snd ?r)) ! flash) = take 8 (binstoreBufs s ! flash)"
      using ih w1 r1 by simp
    have b: "fst ?r = Completed \<longrightarrow>
            (\<exists>ws h. snd (snd ?r) = es @ ws @ [BinstoreWrite 0 h] \<and> headerWrites ws = [] \<and>
                    int (off + received (take (length ws) (buf # rest))) \<ge> sz) \<and>
            int (off + received (buf # rest)) \<ge> sz"
    proof
      assume c: "fst ?r = Completed"
      with ih obtain ws h where
        ws: "snd (snd ?r) = (es @ [?w1]) @ ws @ [BinstoreWrite 0 h]" "headerWrites ws = []"
        and k: "int (off + length buf + received (take (length ws) rest)) \<ge> sz"
        and n: "int (off + length buf + received rest) \<ge> sz" by blast
      have "snd (snd ?r) = es @ (?w1 # ws) @ [BinstoreWrite 0 h]" using ws(1) by simp
      moreover have "headerWrites (?w1 # ws) = []"
        using headerWrites_append [of "[?w1]" ws] by (simp only: w1 ws(2) append.simps)
      moreover have "int (off + received (take (length (?w1 # ws)) (buf # rest))) \<ge> sz"
        using k by (simp add: received_def add.assoc)
      ultimately show "(\<exists>ws h. snd (snd ?r) = es @ ws @ [BinstoreWrite 0 h] \<and> headerWrites ws = [] \<and>
                    int (off + received (take (length ws) (buf # rest))) \<ge> sz) \<and>
            int (off + received (buf # rest)) \<ge> sz"
        using n by (auto simp add: received_def add.assoc)
    qed
    have c: "fst ?r \<noteq> Rejected \<and> length (binstoreBufs (fst (snd ?r))) = length (binstoreBufs s)"
      using ih r1 by simp
    show ?thesis unfolding e using a b c by blast
  qed
qed

lemma erased_word:
  assumes "take 4 region = [0xff, 0xff, 0xff, 0xff]"
  shows "getNumber region Int32LE 0 = - 1"
proof -
  have "length (take 4 region) = 4" using assms by simp
  then have "\<not> min (length region) 4 < 4" by simp
  then show ?thesis using assms by (simp add: getNumber_def sintLE_def Let_def)
qed

lemma readModel_accepted:
  assumes "\<not> sz > binstoreTotalSize s - 8"
  shows "readModel tfLoad port sz chunks s
         = (let r = readLoop sz 0 chunks 0 (replicate 8 0)
                      ((eraseModel s)\<lparr>binstoreBufs := [replicate (nat sz) 0xff]\<rparr>)
                      [SendPipePort port]
            in if fst r = Completed
               then (Completed, loadModel tfLoad (fst (snd r)), snd (snd r) @ [PipeClose])
               else r)"
proof -
  have a: "binstore_addBuffer (eraseModel s) sz
           = ((eraseModel s)\<lparr>binstoreBufs := [replicate (nat sz) 0xff]\<rparr>, 0)"
    by (simp add: binstore_addBuffer_def eraseModel_def binstore_erase_def)
  let ?r = "readLoop sz 0 chunks 0 (replicate 8 0)
              ((eraseModel s)\<lparr>binstoreBufs := [replicate (nat sz) 0xff]\<rparr>) [SendPipePort port]"
  obtain out s3 es where r: "?r = (out, s3, es)" by (cases ?r) auto
  have "readModel tfLoad port sz chunks s
        = (case ?r of (Completed, s3, es) \<Rightarrow> (Completed, loadModel tfLoad s3, es @ [PipeClose])
           | r \<Rightarrow> r)"
    using assms by (simp add: readModel_def a)
  then show ?thesis
    unfolding r by (cases out) (simp_all add: Let_def)
qed

lemma modelBuffer_erased:
  "binstoreBufs t = b # bs \<Longrightarrow> getNumber b Int32LE 0 = - 1 \<Longrightarrow>
   modelBuffer t = None \<and> modelSize t = 0"
  by (simp add: modelBuffer_def modelSize_def)

lemma readModel_outcomes:
  assumes "\<not> sz > binstoreTotalSize s - 8"
    and "readModel tfLoad port sz chunks s = (out, s', es)"
  shows "out \<noteq> Rejected"
    and "out = Completed \<Longrightarrow> int (received chunks) \<ge> sz \<and>
           (\<exists>ws h. es = SendPipePort port # ws @ [BinstoreWrite 0 h, PipeClose] \<and>
                   headerWrites ws = [] \<and> int (received (take (length ws) chunks)) \<ge> sz)"
    and "out \<noteq> Completed \<Longrightarrow> headerWrites es = [] \<and>
           (\<exists>region. s' = (eraseModel s)\<lparr>binstoreBufs := [region]\<rparr> \<and>
                     take 8 region = replicate (min 8 (nat sz)) 0xff)"
proof -
  let ?s2 = "(eraseModel s)\<lparr>binstoreBufs := [replicate (nat sz) 0xff]\<rparr>"
  let ?r = "readLoop sz 0 chunks 0 (replicate 8 0) ?s2 [SendPipePort port]"
  obtain o3 s3 es3 where r: "?r = (o3, s3, es3)" by (cases ?r) auto
  have acc: "(out, s', es) = (if o3 = Completed
                              then (Completed, loadModel tfLoad s3, es3 @ [PipeClose])
                              else (o3, s3, es3))"
    using readModel_accepted [OF assms(1), of tfLoad port chunks] assms(2)
    by (simp add: Let_def r)
  have z: "(0::nat) mod 8 = 0" by simp
  from readLoop_header [OF z, of sz 0 chunks "replicate 8 0" ?s2 "[SendPipePort port]"]
  have h1: "o3 \<noteq> Completed \<longrightarrow> headerWrites es3 = [] \<and>
              take 8 (binstoreBufs s3 ! 0) = take 8 (replicate (nat sz) (0xff :: byte))"
    and h2: "o3 = Completed \<longrightarrow>
              (\<exists>ws h. es3 = [SendPipePort port] @ ws @ [BinstoreWrite 0 h] \<and> headerWrites ws = []
                      \<and> int (received (take (length ws) chunks)) \<ge> sz)
              \<and> int (received chunks) \<ge> sz"
    and h3: "o3 \<noteq> Rejected" and h4: "length (binstoreBufs s3) = 1"
    unfolding r by (simp_all add: headerWrites_def)
  show "out \<noteq> Rejected"
    using acc h3 by (cases "o3 = Completed") simp_all
  show "int (received chunks) \<ge> sz \<and>
           (\<exists>ws h. es = SendPipePort port # ws @ [BinstoreWrite 0 h, PipeClose] \<and>
                   headerWrites ws = [] \<and> int (received (take (length ws) chunks)) \<ge> sz)"
    if "out = Completed"
  proof -
    have c: "o3 = Completed" and e: "es = es3 @ [PipeClose]"
      using acc that by (cases "o3 = Completed"; simp)+
    from h2 c obtain ws h where
      "es3 = [SendPipePort port] @ ws @ [BinstoreWrite 0 h]" "headerWrites ws = []"
      "int (received (take (length ws) chunks)) \<ge> sz"
      "int (received chunks) \<ge> sz" by blast
    then show ?thesis using e by simp
  qed
  show "headerWrites es = [] \<and>
           (\<exists>region. s' = (eraseModel s)\<lparr>binstoreBufs := [region]\<rparr> \<and>
                     take 8 region = replicate (min 8 (nat sz)) 0xff)" if "out \<noteq> Completed"
  proof -
    have c: "o3 \<noteq> Completed" and e: "es = es3" "s' = s3"
      using acc that by (cases "o3 = Completed"; simp)+
    from h1 c have h: "headerWrites es = []"
      and t: "take 8 (binstoreBufs s' ! 0) = take 8 (replicate (nat sz) (0xff :: byte))"
      unfolding e by simp_all
    from readLoop_frame [of sz 0 chunks 0 "replicate 8 0" ?s2 "[SendPipePort port]"]
    obtain b where b: "s' = ?s2\<lparr>binstoreBufs := b\<rparr>"
      unfolding r e by auto
    then have bb: "binstoreBufs s' = b" by simp
    with h4 e obtain region where rg: "b = [region]"
      by (cases b) simp_all
    have "s' = (eraseModel s)\<lparr>binstoreBufs := [region]\<rparr>" using b rg by simp
    moreover have "take 8 region = replicate (min 8 (nat sz)) 0xff"
      using t bb rg by simp
    ultimately show ?thesis using h by blast
  qed
qed

lemma readModel_unfinished_no_model:
  assumes "\<not> sz > binstoreTotalSize s - 8"
    and "readModel tfLoad port sz chunks s = (out, s', es)"
    and "out \<noteq> Completed" and "4 \<le> sz"
  shows "modelBuffer s' = None \<and> modelSize s' = 0"
proof -
  from readModel_outcomes(3) [OF assms(1,2,3)] obtain region where
    r: "binstoreBufs s' = [region]" "take 8 region = replicate (min 8 (nat sz)) 0xff"
    by auto
  have "take 4 region = take 4 (take 8 region)" by simp
  also have "\<dots> = replicate 4 0xff" using assms(4) by (simp only: r(2)) simp
  finally have "take 4 region = [0xff, 0xff, 0xff, 0xff]"
    by (simp add: numeral_eq_Suc)
  then have "getNumber region Int32LE 0 = - 1" by (rule erased_word)
  with modelBuffer_erased [OF r(1)] show ?thesis by simp
qed

lemma received_exHalf: "received exHalf = 512"
  by (simp add: received_def exHalf_def)

lemma readModel_collapse:
  "readModel tfLoad port sz chunks s
   = (fst (readModel tfLoad port sz chunks s), fst (snd (readModel tfLoad port sz chunks s)),
      snd (snd (readModel tfLoad port sz chunks s)))"
  by simp

subsection \<open>C1: the header is written last\<close>

text \<open>
  C1. For every upload: when it completes, its writes to the store are one write for
  each chunk read, at offset 8 or beyond, followed by one write of the staged header at
  offset 0, the last before the pipe closes, and the chunks read by then hold at least
  the declared size; an upload that receives fewer bytes than declared does not complete.
  When the upload does not complete (rejected, pipe closed early, or aborted on a
  misaligned offset), no write touches the first 8 bytes; in a region that was allocated
  they stay erased, and (the region having room for a 32-bit word) the host reports no
  model: \<^verbatim>\<open>modelBuffer\<close> is null and the model size 0. On any host, a first region
  whose first 32-bit word reads -1 is reported as no model.
\<close>

theorem upload_header_last:
  assumes "readModel tfLoad port sz chunks s = (out, s', es)"
  shows "(out = Completed \<longrightarrow>
            (\<exists>ws h. es = SendPipePort port # ws @ [BinstoreWrite 0 h, PipeClose] \<and>
                    headerWrites ws = [] \<and>
                    int (received (take (length ws) chunks)) \<ge> sz)) \<and>
         (int (received chunks) < sz \<longrightarrow> out \<noteq> Completed) \<and>
         (out \<noteq> Completed \<longrightarrow>
            headerWrites es = [] \<and>
            (out \<noteq> Rejected \<longrightarrow>
               (\<exists>region. binstoreBufs s' = [region] \<and>
                         take 8 region = replicate (min 8 (nat sz)) 0xff) \<and>
               (4 \<le> sz \<longrightarrow> modelBuffer s' = None \<and> modelSize s' = 0))) \<and>
         (\<forall>t b bs. binstoreBufs t = b # bs \<and> getNumber b Int32LE 0 = - 1 \<longrightarrow>
            modelBuffer t = None \<and> modelSize t = 0)"
proof (cases "sz > binstoreTotalSize s - 8")
  case True
  then have "out = Rejected" "es = []"
    using assms by (simp_all add: readModel_def)
  then show ?thesis
    using modelBuffer_erased by (auto simp add: headerWrites_def)
next
  case False
  note o = readModel_outcomes [OF False assms]
  have "\<exists>ws h. es = SendPipePort port # ws @ [BinstoreWrite 0 h, PipeClose] \<and>
                headerWrites ws = [] \<and> int (received (take (length ws) chunks)) \<ge> sz"
    if "out = Completed"
    using o(2) [OF that] by blast
  moreover have "out \<noteq> Completed" if "int (received chunks) < sz"
    using o(2) that by auto
  moreover have "headerWrites es = []" if "out \<noteq> Completed"
    using o(3) [OF that] by blast
  moreover have "\<exists>region. binstoreBufs s' = [region] \<and>
                   take 8 region = replicate (min 8 (nat sz)) 0xff" if "out \<noteq> Completed"
    using o(3) [OF that] by auto
  moreover have "modelBuffer s' = None \<and> modelSize s' = 0" if "out \<noteq> Completed" "4 \<le> sz"
    using readModel_unfinished_no_model [OF False assms that] .
  moreover have "\<forall>t b bs. binstoreBufs t = b # bs \<and> getNumber b Int32LE 0 = - 1 \<longrightarrow>
            modelBuffer t = None \<and> modelSize t = 0"
    using modelBuffer_erased by blast
  ultimately show ?thesis by blast
qed

text \<open>
  The theorem at an upload that declares 1024 bytes to a host with a stored model and
  ends after 512, and at an upload of 16 bytes that arrives whole.
\<close>

theorem upload_header_last_witness:
  "fst (readModel loadOk 1 1024 exHalf exStored) \<noteq> Completed \<and>
   headerWrites (snd (snd (readModel loadOk 1 1024 exHalf exStored))) = [] \<and>
   modelBuffer (fst (snd (readModel loadOk 1 1024 exHalf exStored))) = None \<and>
   modelSize (fst (snd (readModel loadOk 1 1024 exHalf exStored))) = 0 \<and>
   (\<exists>ws h. snd (snd (readModel loadOk 1 16 exFull exStored))
             = SendPipePort 1 # ws @ [BinstoreWrite 0 h, PipeClose] \<and>
           headerWrites ws = [] \<and> int (received (take (length ws) exFull)) \<ge> 16)"
proof -
  have a: "\<not> 1024 > binstoreTotalSize exStored - 8"
    by (simp add: exStored_def initHost_def)
  have r: "fst (readModel loadOk 1 1024 exHalf exStored) \<noteq> Rejected"
    using readModel_outcomes(1) [OF a readModel_collapse [of loadOk 1 1024 exHalf exStored]] .
  have c: "fst (readModel loadOk 1 16 exFull exStored) = Completed"
    by code_simp
  from upload_header_last [OF readModel_collapse [of loadOk 1 1024 exHalf exStored]] r
  have "fst (readModel loadOk 1 1024 exHalf exStored) \<noteq> Completed \<and>
   headerWrites (snd (snd (readModel loadOk 1 1024 exHalf exStored))) = [] \<and>
   modelBuffer (fst (snd (readModel loadOk 1 1024 exHalf exStored))) = None \<and>
   modelSize (fst (snd (readModel loadOk 1 1024 exHalf exStored))) = 0"
    by (auto simp add: received_exHalf)
  moreover from upload_header_last [OF readModel_collapse [of loadOk 1 16 exFull exStored]] c
  have "\<exists>ws h. snd (snd (readModel loadOk 1 16 exFull exStored))
             = SendPipePort 1 # ws @ [BinstoreWrite 0 h, PipeClose] \<and>
           headerWrites ws = [] \<and> int (received (take (length ws) exFull)) \<ge> 16"
    by blast
  ultimately show ?thesis by blast
qed

subsection \<open>C7: an upload beyond the capacity\<close>

text \<open>
  C7. A \<^verbatim>\<open>SetModel\<close> command whose declared size exceeds the capacity of the store minus
  the 8 bytes of the header changes nothing: the dispatcher only hands the transfer to
  the background, and the transfer returns at once with the host as it was (the model
  not erased, no region allocated) and without opening a pipe or sending a report.
\<close>

theorem oversized_upload_rejected:
  assumes "sz > binstoreTotalSize s - 8"
  shows "handlePacket (CmdSetModel sz) s = (s, [RunInBackground (ReadModelTask sz)]) \<and>
         readModel tfLoad port sz chunks s = (Rejected, s, [])"
  using assms
  by (simp add: readModel_def handlePacket_def handleRegInt_def handleRegBuffer_def)

text \<open>The theorem at a store of 100 bytes and a declared size of 93.\<close>

theorem oversized_upload_rejected_witness:
  "handlePacket (CmdSetModel 93) (initHost 100)
     = (initHost 100, [RunInBackground (ReadModelTask 93)]) \<and>
   readModel loadOk 1 93 exHalf (initHost 100) = (Rejected, initHost 100, [])"
proof -
  have a: "93 > binstoreTotalSize (initHost 100) - 8" by (simp add: initHost_def)
  from oversized_upload_rejected [OF a] show ?thesis .
qed

subsection \<open>C9: the registers after a short upload\<close>

text \<open>
  C9, as the code has it. When an upload that declares 1024 bytes is accepted and ends
  after 512 bytes, in whatever chunks, the transfer does not complete; afterwards the
  \<^verbatim>\<open>ModelSize\<close> register reads 0 and the \<^verbatim>\<open>LastError\<close> register reads the last error
  from before the upload, the empty string if there was none.
\<close>

theorem short_upload_registers:
  assumes "1024 \<le> binstoreTotalSize s - 8"
    and "received chunks = 512"
    and "readModel tfLoad port 1024 chunks s = (out, s', es)"
  shows "out \<noteq> Rejected \<and> out \<noteq> Completed \<and>
         handlePacket (RegGet ModelSize) s' = (s', [SendReport ModelSize (PInt 0)]) \<and>
         handlePacket (RegGet LastError) s'
           = (s', [SendReport LastError
                     (PStr (case lastError s of None \<Rightarrow> [] | Some e \<Rightarrow> e))])"
proof -
  have a: "\<not> 1024 > binstoreTotalSize s - 8" using assms(1) by simp
  have nr: "out \<noteq> Rejected" using readModel_outcomes(1) [OF a assms(3)] .
  have nc: "out \<noteq> Completed"
    using readModel_outcomes(2) [OF a assms(3)] assms(2) by auto
  from readModel_unfinished_no_model [OF a assms(3) nc]
  have m: "modelSize s' = 0" by simp
  from readModel_outcomes(3) [OF a assms(3) nc]
  have e: "lastError s' = lastError s" by (auto simp add: eraseModel_def binstore_erase_def)
  have "handlePacket (RegGet ModelSize) s' = (s', [SendReport ModelSize (PInt 0)])"
    using m by (simp add: handlePacket_def handleRegInt_def handleRegBuffer_def)
  moreover have "handlePacket (RegGet LastError) s'
           = (s', [SendReport LastError
                     (PStr (case lastError s of None \<Rightarrow> [] | Some e \<Rightarrow> e))])"
    using e by (simp add: handlePacket_def handleRegInt_def handleRegBuffer_def)
  ultimately show ?thesis using nr nc by blast
qed

text \<open>The theorem at a host that has a stored model and has not loaded it.\<close>

theorem short_upload_registers_witness:
  "handlePacket (RegGet ModelSize) (fst (snd (readModel loadOk 1 1024 exHalf exStored)))
     = (fst (snd (readModel loadOk 1 1024 exHalf exStored)),
        [SendReport ModelSize (PInt 0)]) \<and>
   handlePacket (RegGet LastError) (fst (snd (readModel loadOk 1 1024 exHalf exStored)))
     = (fst (snd (readModel loadOk 1 1024 exHalf exStored)),
        [SendReport LastError (PStr [])])"
proof -
  have a: "1024 \<le> binstoreTotalSize exStored - 8"
    by (simp add: exStored_def initHost_def)
  have e: "lastError exStored = None" by (simp add: exStored_def initHost_def)
  from short_upload_registers
    [OF a received_exHalf readModel_collapse [of loadOk 1 1024 exHalf exStored]]
  show ?thesis by (simp add: e)
qed

text \<open>
  \<^verbatim>\<open>LastError\<close> does not always read \<open>no model\<close> after a short upload: on a host
  that had loaded its stored model it reads the empty string, the transfer returning
  without a load.
\<close>

theorem short_upload_last_error_stale:
  "lastError (loadModel loadOk exStored) = None \<and>
   snd (handlePacket (RegGet LastError)
     (fst (snd (readModel loadOk 1 1024 exHalf (loadModel loadOk exStored)))))
   = [SendReport LastError (PStr [])]"
  by code_simp

subsection \<open>C8: writing the configuration\<close>

lemma exConfig3_sizes:
  "entriesFrom exConfig3 8 = [exEntry]" "getNumber exConfig3 UInt16LE 2 = 3"
  "floatFrameSize exConfig3 = 8"
proof -
  show e: "entriesFrom exConfig3 8 = [exEntry]"
    by (simp add: entriesFrom_def exConfig3_def exEntry_def Buffer_slice_def)
  show "getNumber exConfig3 UInt16LE 2 = 3"
    by (simp add: exConfig3_def getNumber_def)
  show "floatFrameSize exConfig3 = 8"
    by (simp add: floatFrameSize_def e entryFloatBytes_def entrySampleSize_def entryFormat_def)
       (simp add: exEntry_def getNumber_def numberFmt_def sizeOfFormat_def)
qed

lemma exOddConfig_sizes:
  "entriesFrom exOddConfig 8 = [exOddEntry]" "getNumber exOddConfig UInt16LE 2 = 2"
  "floatFrameSize exOddConfig = 0"
proof -
  show e: "entriesFrom exOddConfig 8 = [exOddEntry]"
    by (simp add: entriesFrom_def exOddConfig_def exOddEntry_def Buffer_slice_def)
  show "getNumber exOddConfig UInt16LE 2 = 2"
    by (simp add: exOddConfig_def getNumber_def)
  show "floatFrameSize exOddConfig = 0"
    by (simp add: floatFrameSize_def e entryFloatBytes_def entrySampleSize_def entryFormat_def)
       (simp add: exOddEntry_def getNumber_def numberFmt_def sizeOfFormat_def)
qed

text \<open>
  C8. A write of the configuration register with the blob that is stored changes nothing
  and sends nothing: the sample counter, the collectors and the window buffer stay. A
  write of any other blob stores it, destroys the collectors there were, makes the
  collectors of the new entries afresh with the constructor, allocates a zeroed window
  buffer of the new size, and resets the sample counter and the start mark to 0.
\<close>

theorem config_write_idempotent:
  "(inputSettings s = Some d \<longrightarrow> handlePacket (RegSetInputs d) s = (s, [])) \<and>
   (inputSettings s \<noteq> Some d \<longrightarrow>
      handlePacket (RegSetInputs d) s
        = (s\<lparr>inputSettings := Some d,
              samplingInterval := getNumber d UInt16LE 0,
              samplesInWindow := getNumber d UInt16LE 2,
              collectors := map Collector_new (entriesFrom d 8),
              sampleSize := floatFrameSize d,
              samplesBuffer :=
                replicate (nat (getNumber d UInt16LE 2) * floatFrameSize d) 0,
              numSamples := 0, lastRunNumSamples := 0\<rparr>,
           map CollectorDestroy (collectors s) @
           concat (map (setRegs (getNumber d UInt16LE 0))
                     (map Collector_new (entriesFrom d 8)))))"
proof (intro conjI impI)
  show "handlePacket (RegSetInputs d) s = (s, [])" if "inputSettings s = Some d"
    using that by (simp add: handlePacket_def handleRegInt_def handleRegBuffer_def)
  show "handlePacket (RegSetInputs d) s
        = (s\<lparr>inputSettings := Some d,
              samplingInterval := getNumber d UInt16LE 0,
              samplesInWindow := getNumber d UInt16LE 2,
              collectors := map Collector_new (entriesFrom d 8),
              sampleSize := floatFrameSize d,
              samplesBuffer :=
                replicate (nat (getNumber d UInt16LE 2) * floatFrameSize d) 0,
              numSamples := 0, lastRunNumSamples := 0\<rparr>,
           map CollectorDestroy (collectors s) @
           concat (map (setRegs (getNumber d UInt16LE 0))
                     (map Collector_new (entriesFrom d 8))))"
    if h: "inputSettings s \<noteq> Some d"
  proof -
    let ?s1 = "s\<lparr>inputSettings := Some d\<rparr>"
    have i: "inputSettings ?s1 = Some d" by simp
    show ?thesis
      using h
      by (simp add: handlePacket_def handleRegInt_def handleRegBuffer_def
          configureInputs_eq [OF i])
  qed
qed

text \<open>
  The theorem at \<open>exCounted\<close>: writing \<open>exConfig\<close> again, writing \<open>exConfig3\<close>, and
  writing \<open>exOddConfig\<close>, whose entry has a sample type outside the enumeration.
\<close>

theorem config_write_idempotent_witness:
  "handlePacket (RegSetInputs exConfig) exCounted = (exCounted, []) \<and>
   numSamples (fst (handlePacket (RegSetInputs exConfig3) exCounted)) = 0 \<and>
   length (samplesBuffer (fst (handlePacket (RegSetInputs exConfig3) exCounted))) = 24 \<and>
   collectors (fst (handlePacket (RegSetInputs exConfig3) exCounted)) = [Collector_new exEntry] \<and>
   inputSettings (fst (handlePacket (RegSetInputs exOddConfig) exCounted)) = Some exOddConfig \<and>
   collectors (fst (handlePacket (RegSetInputs exOddConfig) exCounted))
     = [Collector_new exOddEntry] \<and>
   samplesBuffer (fst (handlePacket (RegSetInputs exOddConfig) exCounted)) = []"
proof -
  have a: "inputSettings exCounted = Some exConfig" by (simp add: exCounted_def)
  have b: "inputSettings exCounted \<noteq> Some exConfig3"
    by (simp add: exCounted_def exConfig_def exConfig3_def)
  have c: "inputSettings exCounted \<noteq> Some exOddConfig"
    by (simp add: exCounted_def exConfig_def exOddConfig_def exEntry_def exOddEntry_def)
  from config_write_idempotent [of exCounted exConfig] a
  have 1: "handlePacket (RegSetInputs exConfig) exCounted = (exCounted, [])" by blast
  from config_write_idempotent [of exCounted exConfig3] b
  have 2: "numSamples (fst (handlePacket (RegSetInputs exConfig3) exCounted)) = 0"
    "length (samplesBuffer (fst (handlePacket (RegSetInputs exConfig3) exCounted))) = 24"
    "collectors (fst (handlePacket (RegSetInputs exConfig3) exCounted)) = [Collector_new exEntry]"
    by (simp_all add: exConfig3_sizes)
  from config_write_idempotent [of exCounted exOddConfig] c
  have 3: "inputSettings (fst (handlePacket (RegSetInputs exOddConfig) exCounted))
             = Some exOddConfig"
    "collectors (fst (handlePacket (RegSetInputs exOddConfig) exCounted))
       = [Collector_new exOddEntry]"
    "samplesBuffer (fst (handlePacket (RegSetInputs exOddConfig) exCounted)) = []"
    by (simp_all add: exOddConfig_sizes)
  from 1 2 3 show ?thesis by blast
qed

end
